theory Spec2Isabelle
  imports Main "HOL-Library.Word" "HOL-Library.Char_ord" "HOL-Library.List_Lexorder"
begin

unbundle bit_operations_syntax

section \<open>C-Bus network identifiers (lib/cbus-netid.js)\<close>

subsection \<open>JavaScript values reaching the constructor\<close>

text \<open>
  The constructor is called with strings (from \<open>parse\<close>), numbers (from callers) or
  \<open>undefined\<close> (an omitted argument, an unmatched capture group). Numbers are
  restricted to integers here.
\<close>

datatype jsval = Undefined | Str string | Num int

text \<open>\<open>!!v\<close>: \<open>undefined\<close>, \<open>0\<close> and the empty string are falsy.\<close>

fun truthy :: "jsval \<Rightarrow> bool" where
  "truthy Undefined = False"
| "truthy (Str s) = (s \<noteq> [])"
| "truthy (Num n) = (n \<noteq> 0)"

subsection \<open>Character classes of the regular expressions\<close>

definition is_digit :: "char \<Rightarrow> bool" where
  "is_digit c = (c \<in> set ''0123456789'')"

definition is_upper :: "char \<Rightarrow> bool" where
  "is_upper c = (c \<in> set ''ABCDEFGHIJKLMNOPQRSTUVWXYZ'')"

text \<open>\<open>[A-Z0-9_]\<close>\<close>

definition is_name_char :: "char \<Rightarrow> bool" where
  "is_name_char c = (is_upper c \<or> is_digit c \<or> c = CHR ''_'')"

text \<open>\<open>[0-9_]\<close>\<close>

definition is_numeric_char :: "char \<Rightarrow> bool" where
  "is_numeric_char c = (is_digit c \<or> c = CHR ''_'')"

subsection \<open>Numbers and strings\<close>

definition digit_val :: "char \<Rightarrow> nat" where
  "digit_val c = of_char c - 48"

definition parse_nat :: "string \<Rightarrow> nat" where
  "parse_nat s = foldl (\<lambda>acc c. 10 * acc + digit_val c) 0 s"

definition digit_char :: "nat \<Rightarrow> char" where
  "digit_char d = ''0123456789abcdef'' ! d"

text \<open>The digits of a natural number in radix \<open>b\<close>, most significant first.\<close>

function digits_of :: "nat \<Rightarrow> nat \<Rightarrow> string" where
  "digits_of b n =
     (if n < b \<or> b < 2 then [digit_char n] else digits_of b (n div b) @ [digit_char (n mod b)])"
  by pat_completeness auto
termination
  by (relation "measure snd") (auto simp: div_less_dividend)

declare digits_of.simps [simp del]

text \<open>\<open>Number.prototype.toString(radix)\<close> on an integer: a sign and the digits.\<close>

definition Number_toString :: "nat \<Rightarrow> int \<Rightarrow> string" where
  "Number_toString radix i =
     (if i < 0 then CHR ''-'' # digits_of radix (nat (- i)) else digits_of radix (nat i))"

text \<open>A template literal \<open>${v}\<close> on a number or \<open>undefined\<close>.\<close>

fun template :: "int option \<Rightarrow> string" where
  "template None = ''undefined''"
| "template (Some n) = Number_toString 10 n"

text \<open>
  Modelled from the spec: \<open>cbusUtils.integerise\<close> lives in lib/cbus-utils.js, which is
  not among the sources. The spec (section 4.1): numeric fields are coerced from
  string-or-number input; a value that cannot be interpreted as an integer is treated
  as absent, not as an error. A string is read as an integer when it is a non-empty
  run of decimal digits, optionally preceded by a minus sign.
\<close>

definition string_to_int :: "string \<Rightarrow> int option" where
  "string_to_int s =
     (case s of
        [] \<Rightarrow> None
      | c # ds \<Rightarrow>
          if c = CHR ''-'' then
            (if ds \<noteq> [] \<and> list_all is_digit ds then Some (- int (parse_nat ds)) else None)
          else if list_all is_digit s then Some (int (parse_nat s)) else None)"

fun integerise :: "jsval \<Rightarrow> int option" where
  "integerise Undefined = None"
| "integerise (Num n) = Some n"
| "integerise (Str s) = string_to_int s"

subsection \<open>Errors\<close>

datatype name_rule = ReservedWord | ReservedCMDn | AllNumeric | BadFormat

datatype combination_rule = GroupNeedsApplication | ApplicationNeedsNetwork | UnitNeedsNetwork

text \<open>
  One constructor for each \<open>throw\<close> of the source, grouped under the error kinds of the
  spec; \<open>TypeError\<close> is what the runtime raises for \<open>name.match\<close> on a value that is
  not a string.
\<close>

datatype error =
    MissingProject
  | InvalidProjectName name_rule string
  | OutOfRange string int
  | MissingUnitAddress
  | InvalidCombination combination_rule
  | MalformedNetId string
  | TypeError

subsection \<open>The identifier\<close>

record NetId =
  project :: string
  channel :: "int option"
  network :: "int option"
  unitAddress :: "int option"
  application :: "int option"
  group :: "int option"

subsection \<open>Validation helpers\<close>

definition cgateReservedWords :: "string list" where
  "cgateReservedWords = [''P'', ''CBUS'', ''VM'', ''CMDINT'', ''CGATE'', ''TAG'']"

text \<open>\<open>/^CMD([0-9]+)$/\<close>\<close>

definition match_CMDn :: "string \<Rightarrow> bool" where
  "match_CMDn s = (take 3 s = ''CMD'' \<and> drop 3 s \<noteq> [] \<and> list_all is_digit (drop 3 s))"

text \<open>\<open>/^([0-9_]{1,8})$/\<close>\<close>

definition match_all_numeric :: "string \<Rightarrow> bool" where
  "match_all_numeric s = (1 \<le> length s \<and> length s \<le> 8 \<and> list_all is_numeric_char s)"

text \<open>\<open>/^([A-Z0-9_]{1,8})$/\<close>\<close>

definition match_name_format :: "string \<Rightarrow> bool" where
  "match_name_format s = (1 \<le> length s \<and> length s \<le> 8 \<and> list_all is_name_char s)"

fun validatedProjectName :: "jsval \<Rightarrow> error + string" where
  "validatedProjectName (Str name) =
     (if name \<in> set cgateReservedWords then Inl (InvalidProjectName ReservedWord name)
      else if match_CMDn name then Inl (InvalidProjectName ReservedCMDn name)
      else if match_all_numeric name then Inl (InvalidProjectName AllNumeric name)
      else if \<not> match_name_format name then Inl (InvalidProjectName BadFormat name)
      else Inr name)"
| "validatedProjectName (Num n) = Inl TypeError"
| "validatedProjectName Undefined = Inl TypeError"

definition validatedNumber :: "jsval \<Rightarrow> string \<Rightarrow> error + int option" where
  "validatedNumber val name =
     (case integerise val of
        None \<Rightarrow> Inr None
      | Some v \<Rightarrow> if v < 0 \<or> v > 255 then Inl (OutOfRange name v) else Inr (Some v))"

definition validatedChannelNumber :: "jsval \<Rightarrow> error + int option" where
  "validatedChannelNumber val =
     (case integerise val of
        None \<Rightarrow> Inr None
      | Some v \<Rightarrow>
          if v \<noteq> 0 \<and> (v \<le> 0 \<or> v \<ge> 8) then Inl (OutOfRange ''channel'' v) else Inr (Some v))"

subsection \<open>The constructor\<close>

text \<open>
  The unit branch and the application/group branch of the constructor, each returning
  the triple (unitAddress, application, group) it assigns.
\<close>

definition unit_branch :: "jsval \<Rightarrow> error + (int option \<times> int option \<times> int option)" where
  "unit_branch param4 =
     (case validatedNumber param4 ''unitAddress'' of
        Inl e \<Rightarrow> Inl e
      | Inr ua \<Rightarrow> if ua = None then Inl MissingUnitAddress else Inr (ua, None, None))"

definition group_branch ::
  "jsval \<Rightarrow> jsval \<Rightarrow> error + (int option \<times> int option \<times> int option)" where
  "group_branch param3 param4 =
     (case validatedNumber param3 ''application'' of
        Inl e \<Rightarrow> Inl e
      | Inr app \<Rightarrow>
          (case validatedNumber param4 ''group'' of
             Inl e \<Rightarrow> Inl e
           | Inr grp \<Rightarrow>
               if grp \<noteq> None \<and> app = None then Inl (InvalidCombination GroupNeedsApplication)
               else Inr (None, app, grp)))"

definition CBusNetId :: "jsval \<Rightarrow> jsval \<Rightarrow> jsval \<Rightarrow> jsval \<Rightarrow> jsval \<Rightarrow> error + NetId" where
  "CBusNetId project' network' param3 param4 param5 =
     (if project' = Undefined then Inl MissingProject
      else case validatedProjectName project' of
        Inl e \<Rightarrow> Inl e
      | Inr proj \<Rightarrow>
      (case (if truthy param5 then validatedChannelNumber param5 else Inr None) of
        Inl e \<Rightarrow> Inl e
      | Inr chan \<Rightarrow>
      (case validatedNumber network' ''network'' of
        Inl e \<Rightarrow> Inl e
      | Inr net \<Rightarrow>
      (case (if param3 = Str ''p'' then unit_branch param4 else group_branch param3 param4) of
        Inl e \<Rightarrow> Inl e
      | Inr (ua, app, grp) \<Rightarrow>
          if net = None \<and> app \<noteq> None then Inl (InvalidCombination ApplicationNeedsNetwork)
          else if net = None \<and> ua \<noteq> None then Inl (InvalidCombination UnitNeedsNetwork)
          else Inr \<lparr>project = proj, channel = chan, network = net,
                    unitAddress = ua, application = app, group = grp\<rparr>))))"

subsection \<open>Classification\<close>

definition isProjectId :: "NetId \<Rightarrow> bool" where
  "isProjectId x = (network x = None)"

definition isNetworkId :: "NetId \<Rightarrow> bool" where
  "isNetworkId x = (network x \<noteq> None \<and> application x = None \<and> unitAddress x = None)"

definition isApplicationId :: "NetId \<Rightarrow> bool" where
  "isApplicationId x = (application x \<noteq> None \<and> group x = None)"

text \<open>\<open>!!this.channel\<close>: the channel is a number other than 0.\<close>

definition has_channel :: "NetId \<Rightarrow> bool" where
  "has_channel x = (channel x \<noteq> None \<and> channel x \<noteq> Some 0)"

definition isGroupId :: "NetId \<Rightarrow> bool" where
  "isGroupId x = (\<not> isApplicationId x \<and> \<not> has_channel x \<and> group x \<noteq> None)"

definition isUnitId :: "NetId \<Rightarrow> bool" where
  "isUnitId x = (unitAddress x \<noteq> None)"

definition isSameNetwork :: "NetId \<Rightarrow> NetId \<Rightarrow> bool" where
  "isSameNetwork x other = (network x = network other)"

definition isSameApplication :: "NetId \<Rightarrow> NetId \<Rightarrow> bool" where
  "isSameApplication x other = (application x = application other)"

subsection \<open>Canonical string form\<close>

definition toString :: "NetId \<Rightarrow> string" where
  "toString x =
     (if isProjectId x then ''//'' @ project x
      else if isNetworkId x then ''//'' @ project x @ ''/'' @ template (network x)
      else if isApplicationId x then
        ''//'' @ project x @ ''/'' @ template (network x) @ ''/'' @ template (application x)
      else if isGroupId x then
        ''//'' @ project x @ ''/'' @ template (network x) @ ''/'' @ template (application x)
          @ ''/'' @ template (group x)
      else if has_channel x then
        ''//'' @ project x @ ''/'' @ template (network x) @ ''/'' @ template (application x)
          @ ''/'' @ template (group x) @ ''/'' @ template (channel x)
      else ''//'' @ project x @ ''/'' @ template (network x) @ ''/p/'' @ template (unitAddress x))"

subsection \<open>Hash\<close>

text \<open>
  The operands of \<open><<\<close> and \<open>|\<close> are converted with ToInt32 (\<open>undefined\<close> becomes 0)
  and the result is a signed 32-bit integer.
\<close>

definition ToInt32 :: "int option \<Rightarrow> 32 word" where
  "ToInt32 v = (case v of None \<Rightarrow> 0 | Some n \<Rightarrow> word_of_int n)"

definition getHash :: "NetId \<Rightarrow> string" where
  "getHash x =
     (if isProjectId x then project x
      else if isUnitId x then
        Number_toString 16
          (sint (push_bit 24 (2 :: 32 word) OR push_bit 16 (ToInt32 (network x))
                 OR ToInt32 (unitAddress x)))
      else
        Number_toString 16
          (sint (push_bit 24 (1 :: 32 word) OR push_bit 16 (ToInt32 (network x))
                 OR push_bit 8 (ToInt32 (application x)) OR ToInt32 (group x))))"

subsection \<open>Equality and ordering\<close>

definition isEquals :: "NetId \<Rightarrow> NetId \<Rightarrow> bool" where
  "isEquals x other = (if project x \<noteq> project other then False else getHash x = getHash other)"

text \<open>Strings are compared with \<open><\<close>: lexicographically, by character code.\<close>

definition compare :: "NetId \<Rightarrow> NetId \<Rightarrow> int" where
  "compare a b =
     (if project a \<noteq> project b then (if project a < project b then - 1 else 1)
      else if isUnitId a \<noteq> isUnitId b then (if isUnitId a then 1 else - 1)
      else (if getHash a < getHash b then - 1 else 1))"

subsection \<open>Backtracking matchers\<close>

text \<open>
  A matcher returns every way of matching a prefix of its input, as pairs of what it
  captured and the rest of the input, in the order in which a backtracking engine tries
  them. The first complete match is the one the engine reports.
\<close>

type_synonym 'a matcher = "string \<Rightarrow> ('a \<times> string) list"

text \<open>\<open>[class]{lo,hi}\<close>, greedy: the longest run first.\<close>

definition rep_class :: "(char \<Rightarrow> bool) \<Rightarrow> nat \<Rightarrow> nat \<Rightarrow> string matcher" where
  "rep_class p lo hi s =
     (let m = length (takeWhile p (take hi s))
      in map (\<lambda>k. (take k s, drop k s)) (rev [lo ..< Suc m]))"

definition lit :: "string \<Rightarrow> string matcher" where
  "lit t s = (if take (length t) s = t then [(t, drop (length t) s)] else [])"

text \<open>\<open>(...)?\<close>, greedy: with the group first, then without.\<close>

definition opt :: "'a matcher \<Rightarrow> 'a option matcher" where
  "opt m s = map (\<lambda>(a, r). (Some a, r)) (m s) @ [(None, s)]"

definition alt :: "'a matcher \<Rightarrow> 'a matcher \<Rightarrow> 'a matcher" where
  "alt m1 m2 s = m1 s @ m2 s"

definition seq :: "'a matcher \<Rightarrow> ('a \<Rightarrow> 'b matcher) \<Rightarrow> 'b matcher" where
  "seq m f s = concat (map (\<lambda>(a, r). f a r) (m s))"

definition ret :: "'a \<Rightarrow> 'a matcher" where
  "ret a s = [(a, s)]"

text \<open>The first match that consumes the whole input (\<open>$\<close>).\<close>

definition first_match :: "'a matcher \<Rightarrow> string \<Rightarrow> 'a option" where
  "first_match m s =
     (case filter (\<lambda>(a, r). r = []) (m s) of [] \<Rightarrow> None | (a, r) # _ \<Rightarrow> Some a)"

text \<open>The match a backtracking engine tries first, complete or not.\<close>

definition first_result :: "'a matcher \<Rightarrow> string \<Rightarrow> ('a \<times> string) option" where
  "first_result m s = (case m s of [] \<Rightarrow> None | x # _ \<Rightarrow> Some x)"

subsection \<open>Parsing\<close>

text \<open>\<open>\d{1,3}\<close>\<close>

definition digits13 :: "string matcher" where
  "digits13 = rep_class is_digit 1 3"

text \<open>\<open>(?:\/(\d{1,3}))?\<close>\<close>

definition group_part :: "string option matcher" where
  "group_part = opt (seq (lit ''/'') (\<lambda>_. digits13))"

text \<open>\<open>(?:\/(p|\d{1,3})(?:\/(\d{1,3}))?)?\<close>\<close>

definition app_part :: "(string \<times> string option) option matcher" where
  "app_part =
     opt (seq (lit ''/'') (\<lambda>_. seq (alt (lit ''p'') digits13) (\<lambda>c3.
          seq group_part (\<lambda>c4. ret (c3, c4)))))"

text \<open>\<open>(?:\/(\d{1,3})(?:\/(p|\d{1,3})(?:\/(\d{1,3}))?)?)?\<close>\<close>

definition network_part :: "(string \<times> (string \<times> string option) option) option matcher" where
  "network_part =
     opt (seq (lit ''/'') (\<lambda>_. seq digits13 (\<lambda>c2. seq app_part (\<lambda>g. ret (c2, g)))))"

text \<open>
  \<open>/^\/\/([A-Z0-9_]{1,8})(?:\/(\d{1,3})(?:\/(p|\d{1,3})(?:\/(\d{1,3}))?)?)?\/?(\d{1,3})?$/\<close>,
  returning the five capture groups.
\<close>

definition NETID_REGEX ::
  "(string \<times> string option \<times> string option \<times> string option \<times> string option) matcher" where
  "NETID_REGEX =
     seq (lit ''//'') (\<lambda>_. seq (rep_class is_name_char 1 8) (\<lambda>c1.
     seq network_part (\<lambda>g. seq (opt (lit ''/'')) (\<lambda>_. seq (opt digits13) (\<lambda>c5.
       ret (c1,
            map_option fst g,
            map_option fst (Option.bind g snd),
            Option.bind (Option.bind g snd) snd,
            c5))))))"

text \<open>An unmatched capture group is \<open>undefined\<close>.\<close>

fun component :: "string option \<Rightarrow> jsval" where
  "component None = Undefined"
| "component (Some s) = Str s"

definition parse :: "string \<Rightarrow> error + NetId" where
  "parse netIdString =
     (case first_match NETID_REGEX netIdString of
        None \<Rightarrow> Inl (MalformedNetId netIdString)
      | Some (c1, c2, c3, c4, c5) \<Rightarrow>
          CBusNetId (Str c1) (component c2) (component c3) (component c4) (component c5))"

section \<open>Specification-side notions\<close>

subsection \<open>Languages of strings\<close>

definition conc :: "string set \<Rightarrow> string set \<Rightarrow> string set" where
  "conc A B = {a @ b | a b. a \<in> A \<and> b \<in> B}"

definition optional :: "string set \<Rightarrow> string set" where
  "optional A = insert [] A"

text \<open>Between \<open>lo\<close> and \<open>hi\<close> characters of a class.\<close>

definition run :: "(char \<Rightarrow> bool) \<Rightarrow> nat \<Rightarrow> nat \<Rightarrow> string set" where
  "run p lo hi = {w. lo \<le> length w \<and> length w \<le> hi \<and> list_all p w}"

text \<open>A matcher recognises a language when its remainders are exactly what is left
  of the input after a word of the language.\<close>

definition recognises :: "'a matcher \<Rightarrow> string set \<Rightarrow> bool" where
  "recognises m L = (\<forall>s r. (r \<in> snd ` set (m s)) = (\<exists>w. w \<in> L \<and> s = w @ r))"

text \<open>
  The hierarchy shared by both grammars:
  \<open>("/" network ("/" appOrUnit ("/" group)?)?)?\<close> with \<open>appOrUnit := "p" | \d{1,3}\<close>.
\<close>

definition hierarchy_language :: "string set" where
  "hierarchy_language =
     optional (conc {''/''} (conc (run is_digit 1 3)
       (optional (conc {''/''} (conc ({''p''} \<union> run is_digit 1 3)
         (optional (conc {''/''} (run is_digit 1 3))))))))"

text \<open>
  The grammar as the spec writes it (section 4.2):
  \<open>netid := "//" project ("/" network ("/" appOrUnit ("/" group)?)?)? ("/" channel)?\<close>.
\<close>

definition spec_netid_language :: "string set" where
  "spec_netid_language =
     conc {''//''} (conc (run is_name_char 1 8) (conc hierarchy_language
       (optional (conc {''/''} (run is_digit 1 3)))))"

text \<open>The same grammar as a matcher, to decide membership of a given text.\<close>

definition spec_netid_matcher :: "unit matcher" where
  "spec_netid_matcher =
     seq (lit ''//'') (\<lambda>_. seq (rep_class is_name_char 1 8) (\<lambda>_.
     seq network_part (\<lambda>_. seq (opt (seq (lit ''/'') (\<lambda>_. digits13))) (\<lambda>_. ret ()))))"

definition matches_spec_grammar :: "string \<Rightarrow> bool" where
  "matches_spec_grammar s = (first_match spec_netid_matcher s \<noteq> None)"

text \<open>
  The grammar of the spec with the channel digits optional after their slash, so that a
  text may end in a bare slash:
  \<open>netid := "//" project ("/" network ("/" appOrUnit ("/" group)?)?)? ("/" channel?)?\<close>.
\<close>

definition trailing_slash_netid_language :: "string set" where
  "trailing_slash_netid_language =
     conc {''//''} (conc (run is_name_char 1 8) (conc hierarchy_language
       (optional (conc {''/''} (optional (run is_digit 1 3))))))"

text \<open>The same grammar as a matcher, to decide membership of a given text.\<close>

definition trailing_slash_netid_matcher :: "unit matcher" where
  "trailing_slash_netid_matcher =
     seq (lit ''//'') (\<lambda>_. seq (rep_class is_name_char 1 8) (\<lambda>_.
     seq network_part (\<lambda>_. seq (opt (seq (lit ''/'') (\<lambda>_. opt digits13))) (\<lambda>_. ret ()))))"

definition matches_trailing_slash_grammar :: "string \<Rightarrow> bool" where
  "matches_trailing_slash_grammar s = (first_match trailing_slash_netid_matcher s \<noteq> None)"

text \<open>
  Texts that can be read as project and hierarchy followed at once, with no slash, by one
  to three more digits:
  \<open>"//" project ("/" network ("/" appOrUnit ("/" group)?)?)? \d{1,3}\<close>.
\<close>

definition glued_digits_language :: "string set" where
  "glued_digits_language =
     conc {''//''} (conc (run is_name_char 1 8) (conc hierarchy_language (run is_digit 1 3)))"

text \<open>
  Everything \<open>NETID_REGEX\<close> matches: its tail \<open>\/?(\d{1,3})?\<close> takes the slash and the
  digits independently of each other.
\<close>

definition regex_netid_language :: "string set" where
  "regex_netid_language =
     conc {''//''} (conc (run is_name_char 1 8) (conc hierarchy_language
       (conc (optional {''/''}) (optional (run is_digit 1 3)))))"

subsection \<open>Kinds and fingerprints\<close>

datatype kind = Project | Network | Application | Group | Unit

text \<open>The kind of an identifier, determined by which optional fields are set (section 3).\<close>

definition kind_of :: "NetId \<Rightarrow> kind" where
  "kind_of x =
     (if unitAddress x \<noteq> None then Unit
      else if group x \<noteq> None then Group
      else if application x \<noteq> None then Application
      else if network x \<noteq> None then Network
      else Project)"

text \<open>An absent application or group counts as 0 in the bit-packing.\<close>

fun absent_as_0 :: "int option \<Rightarrow> int" where
  "absent_as_0 None = 0"
| "absent_as_0 (Some v) = v"

text \<open>The fingerprints of section 4.3, over the mathematical integers.\<close>

definition unit_fingerprint :: "int \<Rightarrow> int \<Rightarrow> int" where
  "unit_fingerprint nw ua = push_bit 24 2 OR push_bit 16 nw OR ua"

definition group_fingerprint :: "int \<Rightarrow> int \<Rightarrow> int \<Rightarrow> int" where
  "group_fingerprint nw app grp = push_bit 24 1 OR push_bit 16 nw OR push_bit 8 app OR grp"

text \<open>The value of a string of lowercase hexadecimal digits.\<close>

definition hex_digit_val :: "char \<Rightarrow> nat" where
  "hex_digit_val c = (if is_digit c then of_char c - 48 else of_char c - 87)"

definition hex_value :: "string \<Rightarrow> nat" where
  "hex_value s = foldl (\<lambda>acc c. 16 * acc + hex_digit_val c) 0 s"

definition is_lower_hex :: "string \<Rightarrow> bool" where
  "is_lower_hex s = (s \<noteq> [] \<and> list_all (\<lambda>c. c \<in> set ''0123456789abcdef'') s)"

text \<open>
  \<open>s\<close> is the lowercase hexadecimal rendering of the positive number \<open>v\<close>: digits
  \<open>0-9a-f\<close> only, no leading zero, and the value \<open>v\<close> in base 16.
\<close>

definition lower_hex_of :: "int \<Rightarrow> string \<Rightarrow> bool" where
  "lower_hex_of v s = (is_lower_hex s \<and> hd s \<noteq> CHR ''0'' \<and> int (hex_value s) = v)"

text \<open>The number of predicates among the five that hold.\<close>

definition predicates_true :: "NetId \<Rightarrow> nat" where
  "predicates_true x =
     length (filter id [isProjectId x, isNetworkId x, isApplicationId x, isGroupId x, isUnitId x])"

subsection \<open>Validation rules, by category\<close>

datatype category =
  CatMissingProject | CatInvalidProjectName | CatOutOfRange | CatMissingUnitAddress
  | CatInvalidCombination | CatMalformedNetId | CatTypeError

fun error_category :: "error \<Rightarrow> category" where
  "error_category MissingProject = CatMissingProject"
| "error_category (InvalidProjectName r n) = CatInvalidProjectName"
| "error_category (OutOfRange f v) = CatOutOfRange"
| "error_category MissingUnitAddress = CatMissingUnitAddress"
| "error_category (InvalidCombination r) = CatInvalidCombination"
| "error_category (MalformedNetId s) = CatMalformedNetId"
| "error_category TypeError = CatTypeError"

text \<open>The category of the error a result carries, if it is one.\<close>

fun failure_category :: "error + NetId \<Rightarrow> category option" where
  "failure_category (Inl e) = Some (error_category e)"
| "failure_category (Inr x) = None"


text \<open>A reserved word, the \<open>CMDn\<close> pattern, all numeric, or not of the name format.\<close>

fun invalid_project_name :: "jsval \<Rightarrow> bool" where
  "invalid_project_name (Str s) =
     (s \<in> set cgateReservedWords \<or> match_CMDn s \<or> match_all_numeric s \<or> \<not> match_name_format s)"
| "invalid_project_name v = False"

text \<open>A field that resolves to a number outside [0,255].\<close>

definition outside_byte :: "jsval \<Rightarrow> bool" where
  "outside_byte v = (case integerise v of None \<Rightarrow> False | Some i \<Rightarrow> i < 0 \<or> 255 < i)"

text \<open>A channel that resolves to a number other than 0 outside [1,7].\<close>

definition channel_outside :: "jsval \<Rightarrow> bool" where
  "channel_outside v =
     (case integerise v of None \<Rightarrow> False | Some i \<Rightarrow> i \<noteq> 0 \<and> (i < 1 \<or> 7 < i))"

definition out_of_range :: "jsval \<Rightarrow> jsval \<Rightarrow> jsval \<Rightarrow> jsval \<Rightarrow> bool" where
  "out_of_range network' param3 param4 param5 =
     (channel_outside param5 \<or> outside_byte network' \<or>
      (if param3 = Str ''p'' then outside_byte param4
       else outside_byte param3 \<or> outside_byte param4))"

definition missing_unit_address :: "jsval \<Rightarrow> jsval \<Rightarrow> bool" where
  "missing_unit_address param3 param4 = (param3 = Str ''p'' \<and> integerise param4 = None)"

text \<open>Group without application, application without network, unit without network.\<close>

definition invalid_combination :: "jsval \<Rightarrow> jsval \<Rightarrow> jsval \<Rightarrow> bool" where
  "invalid_combination network' param3 param4 =
     (if param3 = Str ''p'' then integerise param4 \<noteq> None \<and> integerise network' = None
      else (integerise param4 \<noteq> None \<and> integerise param3 = None) \<or>
           (integerise param3 \<noteq> None \<and> integerise network' = None))"


subsection \<open>Example identifiers\<close>

abbreviation shac_254 :: NetId where
  "shac_254 \<equiv> \<lparr>project = ''SHAC'', channel = None, network = Some 254,
     unitAddress = None, application = None, group = None\<rparr>"

abbreviation shac_254_ch3 :: NetId where
  "shac_254_ch3 \<equiv> \<lparr>project = ''SHAC'', channel = Some 3, network = Some 254,
     unitAddress = None, application = None, group = None\<rparr>"

abbreviation shac_254_0_0 :: NetId where
  "shac_254_0_0 \<equiv> \<lparr>project = ''SHAC'', channel = None, network = Some 254,
     unitAddress = None, application = Some 0, group = Some 0\<rparr>"

abbreviation shac_254_56_191 :: NetId where
  "shac_254_56_191 \<equiv> \<lparr>project = ''SHAC'', channel = None, network = Some 254,
     unitAddress = None, application = Some 56, group = Some 191\<rparr>"

abbreviation shac_254_56_191_ch3 :: NetId where
  "shac_254_56_191_ch3 \<equiv> \<lparr>project = ''SHAC'', channel = Some 3, network = Some 254,
     unitAddress = None, application = Some 56, group = Some 191\<rparr>"

abbreviation shac_254_p_22 :: NetId where
  "shac_254_p_22 \<equiv> \<lparr>project = ''SHAC'', channel = None, network = Some 254,
     unitAddress = Some 22, application = None, group = None\<rparr>"

abbreviation shac_254_p_22_ch3 :: NetId where
  "shac_254_p_22_ch3 \<equiv> \<lparr>project = ''SHAC'', channel = Some 3, network = Some 254,
     unitAddress = Some 22, application = None, group = None\<rparr>"

abbreviation project_only :: "string \<Rightarrow> NetId" where
  "project_only nm \<equiv> \<lparr>project = nm, channel = None, network = None,
     unitAddress = None, application = None, group = None\<rparr>"

section \<open>Evaluation\<close>

text \<open>The definitions to unfold when a function is run on a given input.\<close>

lemmas char_class_defs = is_digit_def is_upper_def is_name_char_def is_numeric_char_def

lemmas constructor_defs = CBusNetId_def validatedNumber_def validatedChannelNumber_def
  unit_branch_def group_branch_def cgateReservedWords_def match_CMDn_def match_all_numeric_def
  match_name_format_def string_to_int_def parse_nat_def digit_val_def

lemmas regex_defs = first_match_def NETID_REGEX_def network_part_def app_part_def
  group_part_def digits13_def seq_def opt_def alt_def lit_def ret_def rep_class_def upt_rec

lemmas predicate_defs = isProjectId_def isNetworkId_def isApplicationId_def isGroupId_def
  isUnitId_def has_channel_def

lemmas rendering_defs = toString_def getHash_def Number_toString_def digits_of.simps
  digit_char_def ToInt32_def

section \<open>Properties of the constructor\<close>

lemma validatedNumber_Inr:
  "validatedNumber v nm = Inr r \<Longrightarrow> r = integerise v \<and> (\<forall>i. r = Some i \<longrightarrow> 0 \<le> i \<and> i \<le> 255)"
  by (auto simp: validatedNumber_def split: option.splits if_splits)

lemma validatedChannelNumber_Inr:
  "validatedChannelNumber v = Inr r \<Longrightarrow> r = integerise v \<and> (\<forall>i. r = Some i \<longrightarrow> 0 \<le> i \<and> i \<le> 7)"
  by (auto simp: validatedChannelNumber_def split: option.splits if_splits)

lemma validatedProjectName_Inr:
  "validatedProjectName p = Inr nm \<Longrightarrow> p = Str nm \<and> match_name_format nm \<and> \<not> invalid_project_name p"
  by (cases p) (auto split: if_splits)

lemma unit_branch_Inr:
  "unit_branch g = Inr (ua, app, grp) \<Longrightarrow>
     ua = integerise g \<and> ua \<noteq> None \<and> app = None \<and> grp = None \<and>
     (\<forall>i. ua = Some i \<longrightarrow> 0 \<le> i \<and> i \<le> 255)"
  by (auto simp: unit_branch_def split: sum.splits if_splits dest!: validatedNumber_Inr)

lemma group_branch_Inr:
  "group_branch a g = Inr (ua, app, grp) \<Longrightarrow>
     ua = None \<and> app = integerise a \<and> grp = integerise g \<and> (grp \<noteq> None \<longrightarrow> app \<noteq> None) \<and>
     (\<forall>i. app = Some i \<longrightarrow> 0 \<le> i \<and> i \<le> 255) \<and> (\<forall>i. grp = Some i \<longrightarrow> 0 \<le> i \<and> i \<le> 255)"
  by (auto simp: group_branch_def split: sum.splits if_splits dest!: validatedNumber_Inr)

lemma CBusNetId_Inr:
  assumes "CBusNetId p n a g c = Inr x"
  shows "p = Str (project x)" and "match_name_format (project x)"
    and "network x = integerise n"
    and "\<forall>i. network x = Some i \<longrightarrow> 0 \<le> i \<and> i \<le> 255"
    and "\<forall>i. channel x = Some i \<longrightarrow> 0 \<le> i \<and> i \<le> 7"
    and "\<forall>i. unitAddress x = Some i \<longrightarrow> 0 \<le> i \<and> i \<le> 255"
    and "\<forall>i. application x = Some i \<longrightarrow> 0 \<le> i \<and> i \<le> 255"
    and "\<forall>i. group x = Some i \<longrightarrow> 0 \<le> i \<and> i \<le> 255"
    and "group x \<noteq> None \<longrightarrow> application x \<noteq> None"
    and "application x \<noteq> None \<longrightarrow> network x \<noteq> None"
    and "unitAddress x \<noteq> None \<longrightarrow> network x \<noteq> None"
    and "unitAddress x \<noteq> None \<longrightarrow> application x = None \<and> group x = None"
proof -
  from assms obtain nm chan net ua app grp where
    nm: "validatedProjectName p = Inr nm"
    and chan: "(if truthy c then validatedChannelNumber c else Inr None) = Inr chan"
    and net: "validatedNumber n ''network'' = Inr net"
    and br: "(if a = Str ''p'' then unit_branch g else group_branch a g) = Inr (ua, app, grp)"
    and ok: "\<not> (net = None \<and> app \<noteq> None)" "\<not> (net = None \<and> ua \<noteq> None)"
    and x: "x = \<lparr>project = nm, channel = chan, network = net,
                    unitAddress = ua, application = app, group = grp\<rparr>"
    by (auto simp: CBusNetId_def split: if_splits sum.splits prod.splits)
  from nm have p: "p = Str nm" "match_name_format nm"
    by (auto dest: validatedProjectName_Inr)
  from chan have ch: "\<forall>i. chan = Some i \<longrightarrow> 0 \<le> i \<and> i \<le> 7"
    by (auto split: if_splits dest: validatedChannelNumber_Inr)
  from net have nw: "net = integerise n" "\<forall>i. net = Some i \<longrightarrow> 0 \<le> i \<and> i \<le> 255"
    by (auto dest: validatedNumber_Inr)
  from br have b: "(\<forall>i. ua = Some i \<longrightarrow> 0 \<le> i \<and> i \<le> 255)"
    "(\<forall>i. app = Some i \<longrightarrow> 0 \<le> i \<and> i \<le> 255)" "(\<forall>i. grp = Some i \<longrightarrow> 0 \<le> i \<and> i \<le> 255)"
    "grp \<noteq> None \<longrightarrow> app \<noteq> None" "ua \<noteq> None \<longrightarrow> app = None \<and> grp = None"
    by (auto split: if_splits dest!: unit_branch_Inr group_branch_Inr)+
  show "p = Str (project x)" "match_name_format (project x)" "network x = integerise n"
    "\<forall>i. network x = Some i \<longrightarrow> 0 \<le> i \<and> i \<le> 255"
    "\<forall>i. channel x = Some i \<longrightarrow> 0 \<le> i \<and> i \<le> 7"
    "\<forall>i. unitAddress x = Some i \<longrightarrow> 0 \<le> i \<and> i \<le> 255"
    "\<forall>i. application x = Some i \<longrightarrow> 0 \<le> i \<and> i \<le> 255"
    "\<forall>i. group x = Some i \<longrightarrow> 0 \<le> i \<and> i \<le> 255"
    "group x \<noteq> None \<longrightarrow> application x \<noteq> None"
    "application x \<noteq> None \<longrightarrow> network x \<noteq> None"
    "unitAddress x \<noteq> None \<longrightarrow> network x \<noteq> None"
    "unitAddress x \<noteq> None \<longrightarrow> application x = None \<and> group x = None"
    using p ch nw b ok by (auto simp: x)
qed

lemma parse_Inr:
  "parse s = Inr x \<Longrightarrow> \<exists>p n a g c. CBusNetId p n a g c = Inr x"
  by (simp add: parse_def split: option.splits prod.splits) blast

lemma CBusNetId_Inr_fields:
  assumes "CBusNetId p n a g c = Inr x"
  shows "channel x = (if truthy c then integerise c else None)"
    and "unitAddress x = (if a = Str ''p'' then integerise g else None)"
    and "application x = (if a = Str ''p'' then None else integerise a)"
    and "group x = (if a = Str ''p'' then None else integerise g)"
proof -
  from assms obtain nm chan net ua app grp where
    chan: "(if truthy c then validatedChannelNumber c else Inr None) = Inr chan"
    and br: "(if a = Str ''p'' then unit_branch g else group_branch a g) = Inr (ua, app, grp)"
    and x: "x = \<lparr>project = nm, channel = chan, network = net,
                    unitAddress = ua, application = app, group = grp\<rparr>"
    by (auto simp: CBusNetId_def split: if_splits sum.splits prod.splits)
  from chan have ch: "chan = (if truthy c then integerise c else None)"
    by (auto split: if_splits dest: validatedChannelNumber_Inr)
  from br have b: "ua = (if a = Str ''p'' then integerise g else None)"
    "app = (if a = Str ''p'' then None else integerise a)"
    "grp = (if a = Str ''p'' then None else integerise g)"
    by (auto split: if_splits dest!: unit_branch_Inr group_branch_Inr)
  show "channel x = (if truthy c then integerise c else None)"
    "unitAddress x = (if a = Str ''p'' then integerise g else None)"
    "application x = (if a = Str ''p'' then None else integerise a)"
    "group x = (if a = Str ''p'' then None else integerise g)"
    using ch b by (simp_all add: x)
qed

section \<open>Ordering and equality\<close>

text \<open>
  C1. The claim asks that \<open>compare\<close> return 0 on equal identifiers and be antisymmetric.
  The hash tier of \<open>compare\<close> returns -1 or 1 only: comparing any identifier with
  itself gives 1 although \<open>isEquals\<close> holds.
\<close>

theorem compare_self_is_1: "isEquals x x \<and> compare x x = 1 \<and> compare x x \<noteq> - compare x x"
  by (simp add: isEquals_def compare_def)

text \<open>
  C5. \<open>isEquals\<close> holds exactly when the projects are equal strings and the hashes are
  equal strings; a bare network identifier and the identifier of application 0, group 0
  on the same network of the same project are therefore equal.
\<close>

theorem isEquals_project_and_hash:
  "isEquals x y = (project x = project y \<and> getHash x = getHash y) \<and>
   (CBusNetId p n Undefined Undefined c = Inr x' \<longrightarrow>
    CBusNetId p n (Num 0) (Num 0) c' = Inr y' \<longrightarrow>
      isNetworkId x' \<and> kind_of y' = Group \<and> isEquals x' y')"
proof (intro conjI impI)
  show "isEquals x y = (project x = project y \<and> getHash x = getHash y)"
    by (auto simp: isEquals_def)
next
  assume x: "CBusNetId p n Undefined Undefined c = Inr x'"
    and y: "CBusNetId p n (Num 0) (Num 0) c' = Inr y'"
  have fx: "network x' = integerise n" "unitAddress x' = None" "application x' = None"
    "group x' = None" "p = Str (project x')"
    using CBusNetId_Inr(1,3) [OF x] CBusNetId_Inr_fields [OF x] by simp_all
  have fy: "network y' = integerise n" "unitAddress y' = None" "application y' = Some 0"
    "group y' = Some 0" "p = Str (project y')"
    using CBusNetId_Inr(1,3) [OF y] CBusNetId_Inr_fields [OF y] by simp_all
  have nw: "network y' \<noteq> None"
    using CBusNetId_Inr(10) [OF y] fy by simp
  show "isNetworkId x'" using fx fy nw by (simp add: isNetworkId_def)
  show "kind_of y' = Group" using fy by (simp add: kind_of_def)
  show "isEquals x' y'"
    using fx fy nw by (auto simp: isEquals_def getHash_def isProjectId_def isUnitId_def ToInt32_def)
qed

theorem isEquals_project_and_hash_witness:
  "CBusNetId (Str ''SHAC'') (Num 254) Undefined Undefined Undefined = Inr shac_254 \<and>
   CBusNetId (Str ''SHAC'') (Num 254) (Num 0) (Num 0) Undefined = Inr shac_254_0_0 \<and>
   isNetworkId shac_254 \<and> kind_of shac_254_0_0 = Group \<and> isEquals shac_254 shac_254_0_0 \<and>
   getHash shac_254 = ''1fe0000'' \<and> getHash shac_254_0_0 = ''1fe0000''"
  using isEquals_project_and_hash [of shac_254 shac_254_0_0 "Str ''SHAC''" "Num 254" Undefined
      shac_254 Undefined shac_254_0_0]
  by (simp add: constructor_defs char_class_defs predicate_defs rendering_defs)

text \<open>
  C8. The claim asks that, with equal projects and equal unit-ness, the result be the
  lexicographic order of the hash strings. The bare network identifier and the
  identifier of application 0, group 0 on that network have the same project, the same
  unit-ness and the same hash string, which lexicographic order places neither before
  nor after itself; \<open>compare\<close> returns 1 in both directions, each sorting after the other.
\<close>

theorem compare_equal_hashes_both_after:
  "project shac_254 = project shac_254_0_0 \<and> isUnitId shac_254 = isUnitId shac_254_0_0 \<and>
   getHash shac_254 = ''1fe0000'' \<and> getHash shac_254_0_0 = ''1fe0000'' \<and>
   \<not> getHash shac_254 < getHash shac_254_0_0 \<and> \<not> getHash shac_254_0_0 < getHash shac_254 \<and>
   compare shac_254 shac_254_0_0 = 1 \<and> compare shac_254_0_0 shac_254 = 1"
  by (simp add: compare_def predicate_defs rendering_defs)

text \<open>
  C10. \<open>isSameNetwork\<close> is defined on every pair of identifiers and holds exactly when
  the network fields are equal; two project identifiers, whose networks are both absent,
  are on the same network even when their projects differ.
\<close>

theorem isSameNetwork_iff:
  "isSameNetwork x y = (network x = network y) \<and>
   (isProjectId x' \<and> isProjectId y' \<longrightarrow> isSameNetwork x' y')"
  by (simp add: isSameNetwork_def isProjectId_def)

theorem isSameNetwork_iff_witness:
  "CBusNetId (Str ''SHAC'') Undefined Undefined Undefined Undefined = Inr (project_only ''SHAC'') \<and>
   CBusNetId (Str ''HOME'') Undefined Undefined Undefined Undefined = Inr (project_only ''HOME'') \<and>
   isProjectId (project_only ''SHAC'') \<and> isProjectId (project_only ''HOME'') \<and>
   isSameNetwork (project_only ''SHAC'') (project_only ''HOME'') \<and>
   isSameNetwork shac_254_p_22 shac_254 \<and> \<not> isSameNetwork shac_254_p_22 (project_only ''SHAC'')"
  using isSameNetwork_iff [of shac_254_p_22 shac_254 "project_only ''SHAC''" "project_only ''HOME''"]
    isSameNetwork_iff [of shac_254_p_22 "project_only ''SHAC''" "project_only ''SHAC''" "project_only ''HOME''"]
  by (simp add: constructor_defs char_class_defs predicate_defs)

section \<open>Round trip\<close>

text \<open>
  C2. The claim asks that every constructed identifier, with or without a channel, parse
  back from its string form. A unit identifier that carries a channel is constructed and
  parsed without error, but \<open>toString\<close> takes the channel template before the unit
  template and prints the absent application and group as \<open>undefined\<close>, which \<open>parse\<close>
  rejects.
\<close>

theorem unit_with_channel_does_not_round_trip:
  "CBusNetId (Str ''SHAC'') (Num 254) (Str ''p'') (Num 22) (Num 3) = Inr shac_254_p_22_ch3 \<and>
   parse ''//SHAC/254/p/22/3'' = Inr shac_254_p_22_ch3 \<and>
   isUnitId shac_254_p_22_ch3 \<and>
   toString shac_254_p_22_ch3 = ''//SHAC/254/undefined/undefined/3'' \<and>
   parse (toString shac_254_p_22_ch3) = Inl (MalformedNetId ''//SHAC/254/undefined/undefined/3'')"
  by (simp add: parse_def regex_defs constructor_defs char_class_defs predicate_defs rendering_defs)

section \<open>Classification\<close>

lemma constructed_kind:
  assumes "CBusNetId p n a g c = Inr x"
  shows "isProjectId x = (kind_of x = Project)"
    and "isNetworkId x = (kind_of x = Network)"
    and "isApplicationId x = (kind_of x = Application)"
    and "isGroupId x = (kind_of x = Group \<and> \<not> has_channel x)"
    and "isUnitId x = (kind_of x = Unit)"
  using CBusNetId_Inr(9-12) [OF assms]
  by (auto simp: predicate_defs kind_of_def)

text \<open>
  C9. On every constructed identifier exactly one of the five predicates holds, except
  on a group identifier that carries a channel (a channel other than 0), where none
  holds because \<open>isGroupId\<close> is false whenever a channel is present.
\<close>

theorem one_predicate_except_channelled_group:
  assumes "CBusNetId p n a g c = Inr x"
  shows "predicates_true x = (if kind_of x = Group \<and> has_channel x then 0 else 1) \<and>
         (has_channel x \<longrightarrow> \<not> isGroupId x)"
  unfolding predicates_true_def constructed_kind [OF assms]
  by (cases "kind_of x") simp_all

theorem one_predicate_except_channelled_group_witness:
  "CBusNetId (Str ''SHAC'') (Num 254) (Num 56) (Num 191) (Num 3) = Inr shac_254_56_191_ch3 \<and>
   has_channel shac_254_56_191_ch3 \<and> kind_of shac_254_56_191_ch3 = Group \<and>
   \<not> isGroupId shac_254_56_191_ch3 \<and> predicates_true shac_254_56_191_ch3 = 0 \<and>
   CBusNetId (Str ''SHAC'') (Num 254) (Num 56) (Num 191) Undefined = Inr shac_254_56_191 \<and>
   isGroupId shac_254_56_191 \<and> predicates_true shac_254_56_191 = 1 \<and>
   CBusNetId (Str ''SHAC'') (Num 254) (Str ''p'') (Num 22) (Num 3) = Inr shac_254_p_22_ch3 \<and>
   has_channel shac_254_p_22_ch3 \<and> isUnitId shac_254_p_22_ch3 \<and>
   predicates_true shac_254_p_22_ch3 = 1"
  using one_predicate_except_channelled_group [of "Str ''SHAC''" "Num 254" "Num 56" "Num 191"
      "Num 3" shac_254_56_191_ch3]
    one_predicate_except_channelled_group [of "Str ''SHAC''" "Num 254" "Num 56" "Num 191"
      Undefined shac_254_56_191]
    one_predicate_except_channelled_group [of "Str ''SHAC''" "Num 254" "Str ''p''" "Num 22"
      "Num 3" shac_254_p_22_ch3]
  by (simp add: constructor_defs char_class_defs predicate_defs predicates_true_def kind_of_def)

section \<open>Hash\<close>

lemma below_16_cases:
  assumes "d < (16::nat)"
  shows "d \<in> {0, 1, 2, 3, 4, 5, 6, 7, 8, 9, 10, 11, 12, 13, 14, 15}"
  using assms by auto arith

lemma hex_digit_val_digit_char: "d < 16 \<Longrightarrow> hex_digit_val (digit_char d) = d"
  by (drule below_16_cases) (auto simp: hex_digit_val_def digit_char_def is_digit_def)

lemma digit_char_lower_hex: "d < 16 \<Longrightarrow> digit_char d \<in> set ''0123456789abcdef''"
  by (drule below_16_cases) (auto simp: digit_char_def)

lemma digit_char_eq_0: "d < 16 \<Longrightarrow> (digit_char d = CHR ''0'') = (d = 0)"
  by (drule below_16_cases) (auto simp: digit_char_def)

lemma hex_value_snoc: "hex_value (s @ [c]) = 16 * hex_value s + hex_digit_val c"
  by (simp add: hex_value_def)

lemma digits_of_16:
  "digits_of 16 n \<noteq> [] \<and> list_all (\<lambda>c. c \<in> set ''0123456789abcdef'') (digits_of 16 n) \<and>
   hex_value (digits_of 16 n) = n \<and> (0 < n \<longrightarrow> hd (digits_of 16 n) \<noteq> CHR ''0'')"
proof (induction "16::nat" n rule: digits_of.induct)
  case (1 n)
  show ?case
  proof (cases "n < 16")
    case True
    then have eq: "digits_of 16 n = [digit_char n]"
      by (simp add: digits_of.simps)
    show ?thesis
      unfolding eq using True digit_char_lower_hex [OF True] hex_digit_val_digit_char [OF True]
        digit_char_eq_0 [OF True]
      by (simp add: hex_value_def)
  next
    case False
    then have eq: "digits_of 16 n = digits_of 16 (n div 16) @ [digit_char (n mod 16)]"
      by (subst digits_of.simps) simp
    have m: "n mod 16 < 16" by simp
    have pos: "0 < n div 16" using False by (simp add: div_greater_zero_iff)
    from False have IH: "digits_of 16 (n div 16) \<noteq> [] \<and>
        list_all (\<lambda>c. c \<in> set ''0123456789abcdef'') (digits_of 16 (n div 16)) \<and>
        hex_value (digits_of 16 (n div 16)) = n div 16 \<and>
        (0 < n div 16 \<longrightarrow> hd (digits_of 16 (n div 16)) \<noteq> CHR ''0'')"
      using "1" by simp
    show ?thesis
      unfolding eq using IH pos digit_char_lower_hex [OF m] hex_digit_val_digit_char [OF m]
      by (simp add: hex_value_snoc)
  qed
qed

lemma Number_toString_16_lower_hex:
  assumes "0 < v"
  shows "lower_hex_of v (Number_toString 16 v)"
  using assms digits_of_16 [of "nat v"]
  by (simp add: lower_hex_of_def is_lower_hex_def Number_toString_def)

lemma sint_word_of_int_small:
  assumes "0 \<le> k" and "k < 2 ^ 31"
  shows "sint (word_of_int k :: 32 word) = k"
  using assms by (simp add: sint_sbintrunc' signed_take_bit_int_eq_self)

lemma or_below_2_31:
  assumes "0 \<le> a" "a < 2 ^ 31" "(b::int) < 2 ^ 31"
  shows "a OR b < 2 ^ 31"
  using assms by (rule OR_upper)

lemma shifted_byte:
  assumes "0 \<le> (v::int)" "v \<le> 255"
  shows "0 \<le> push_bit 8 v" and "push_bit 8 v < 2 ^ 31"
    and "0 \<le> push_bit 16 v" and "push_bit 16 v < 2 ^ 31"
  using assms by (simp_all add: push_bit_int_def)

lemma byte_below_2_31: "(v::int) \<le> 255 \<Longrightarrow> v < 2 ^ 31"
  by simp

lemma unit_fingerprint_bounds:
  assumes "0 \<le> nw" "nw \<le> 255" "0 \<le> ua" "ua \<le> 255"
  shows "0 < unit_fingerprint nw ua" and "unit_fingerprint nw ua < 2 ^ 31"
proof -
  have a: "0 \<le> push_bit 24 (2::int)" "push_bit 24 (2::int) < 2 ^ 31"
    by (simp_all add: push_bit_int_def)
  have "push_bit 16 nw OR ua < 2 ^ 31"
    by (rule or_below_2_31 [OF shifted_byte(3,4) [OF assms(1,2)] byte_below_2_31 [OF assms(4)]])
  then show "unit_fingerprint nw ua < 2 ^ 31"
    unfolding unit_fingerprint_def by (rule or_below_2_31 [OF a])
  have "push_bit 24 (2::int) \<le> push_bit 24 2 OR (push_bit 16 nw OR ua)"
    using assms by (intro or_greater_eq) simp
  then show "0 < unit_fingerprint nw ua"
    by (simp add: unit_fingerprint_def push_bit_int_def)
qed

lemma group_fingerprint_bounds:
  assumes "0 \<le> nw" "nw \<le> 255" "0 \<le> app" "app \<le> 255" "0 \<le> grp" "grp \<le> 255"
  shows "0 < group_fingerprint nw app grp" and "group_fingerprint nw app grp < 2 ^ 31"
proof -
  have a: "0 \<le> push_bit 24 (1::int)" "push_bit 24 (1::int) < 2 ^ 31"
    by (simp_all add: push_bit_int_def)
  have "push_bit 8 app OR grp < 2 ^ 31"
    by (rule or_below_2_31 [OF shifted_byte(1,2) [OF assms(3,4)] byte_below_2_31 [OF assms(6)]])
  then have "push_bit 16 nw OR (push_bit 8 app OR grp) < 2 ^ 31"
    by (rule or_below_2_31 [OF shifted_byte(3,4) [OF assms(1,2)]])
  then show "group_fingerprint nw app grp < 2 ^ 31"
    unfolding group_fingerprint_def by (rule or_below_2_31 [OF a])
  have "push_bit 24 (1::int) \<le> push_bit 24 1 OR (push_bit 16 nw OR (push_bit 8 app OR grp))"
    using assms by (intro or_greater_eq) simp
  then show "0 < group_fingerprint nw app grp"
    by (simp add: group_fingerprint_def push_bit_int_def)
qed

lemma unit_hash_no_wrap:
  assumes "0 \<le> nw" "nw \<le> 255" "0 \<le> ua" "ua \<le> 255"
  shows "sint (push_bit 24 (2 :: 32 word) OR push_bit 16 (word_of_int nw) OR word_of_int ua)
         = unit_fingerprint nw ua"
proof -
  have "push_bit 24 (2 :: 32 word) OR push_bit 16 (word_of_int nw) OR word_of_int ua
        = word_of_int (unit_fingerprint nw ua)"
    by (simp add: unit_fingerprint_def of_int_or_eq of_int_push_bit)
  then show ?thesis
    using unit_fingerprint_bounds [OF assms] by (simp add: sint_word_of_int_small)
qed

lemma group_hash_no_wrap:
  assumes "0 \<le> nw" "nw \<le> 255" "0 \<le> app" "app \<le> 255" "0 \<le> grp" "grp \<le> 255"
  shows "sint (push_bit 24 (1 :: 32 word) OR push_bit 16 (word_of_int nw)
               OR push_bit 8 (word_of_int app) OR word_of_int grp)
         = group_fingerprint nw app grp"
proof -
  have "push_bit 24 (1 :: 32 word) OR push_bit 16 (word_of_int nw)
          OR push_bit 8 (word_of_int app) OR word_of_int grp
        = word_of_int (group_fingerprint nw app grp)"
    by (simp add: group_fingerprint_def of_int_or_eq of_int_push_bit)
  then show ?thesis
    using group_fingerprint_bounds [OF assms] by (simp add: sint_word_of_int_small)
qed

lemma ToInt32_absent_as_0: "ToInt32 v = word_of_int (absent_as_0 v)"
  by (cases v) (simp_all add: ToInt32_def)

lemma absent_as_0_byte:
  assumes "\<forall>i. v = Some i \<longrightarrow> 0 \<le> i \<and> i \<le> 255"
  shows "0 \<le> absent_as_0 v" and "absent_as_0 v \<le> 255"
  using assms by (cases v; simp)+

lemma constructed_unit_hash:
  assumes ok: "CBusNetId p n a g c = Inr x" and k: "kind_of x = Unit"
  shows "\<exists>nw ua. network x = Some nw \<and> unitAddress x = Some ua \<and>
           lower_hex_of (unit_fingerprint nw ua) (getHash x)"
proof -
  from k obtain ua where ua: "unitAddress x = Some ua"
    by (auto simp: kind_of_def split: if_splits)
  with CBusNetId_Inr(11) [OF ok] obtain nw where nw: "network x = Some nw"
    by auto
  have b: "0 \<le> nw" "nw \<le> 255" "0 \<le> ua" "ua \<le> 255"
    using CBusNetId_Inr(4,6) [OF ok] nw ua by simp_all
  have "getHash x = Number_toString 16 (unit_fingerprint nw ua)"
    using unit_hash_no_wrap [OF b]
    by (simp add: getHash_def isProjectId_def isUnitId_def nw ua ToInt32_def)
  then show ?thesis
    using Number_toString_16_lower_hex [OF unit_fingerprint_bounds(1) [OF b]] nw ua by simp
qed

lemma constructed_group_hash:
  assumes ok: "CBusNetId p n a g c = Inr x"
    and k: "kind_of x = Network \<or> kind_of x = Application \<or> kind_of x = Group"
  shows "\<exists>nw. network x = Some nw \<and>
           lower_hex_of (group_fingerprint nw (absent_as_0 (application x)) (absent_as_0 (group x)))
             (getHash x)"
proof -
  from k have ua: "unitAddress x = None"
    by (auto simp: kind_of_def split: if_splits)
  from k CBusNetId_Inr(9,10) [OF ok] obtain nw where nw: "network x = Some nw"
    by (auto simp: kind_of_def split: if_splits)
  have b: "0 \<le> nw" "nw \<le> 255"
    using CBusNetId_Inr(4) [OF ok] nw by simp_all
  note ba = absent_as_0_byte [OF CBusNetId_Inr(7) [OF ok]]
  note bg = absent_as_0_byte [OF CBusNetId_Inr(8) [OF ok]]
  have "getHash x =
      Number_toString 16 (group_fingerprint nw (absent_as_0 (application x)) (absent_as_0 (group x)))"
    using group_hash_no_wrap [OF b ba bg]
    by (simp add: getHash_def isProjectId_def isUnitId_def nw ua ToInt32_absent_as_0)
  then show ?thesis
    using Number_toString_16_lower_hex [OF group_fingerprint_bounds(1) [OF b ba bg]] nw by simp
qed

text \<open>
  C6. On every constructed identifier \<open>getHash\<close> is the lowercase hexadecimal rendering
  of \<open>(2 << 24) | (network << 16) | unitAddress\<close> for a unit identifier, of
  \<open>(1 << 24) | (network << 16) | (application << 8) | group\<close> with an absent application
  or group counted as 0 for a network, application or group identifier (whatever the
  channel), and the project string itself for a project identifier.
\<close>

theorem getHash_is_fingerprint:
  assumes "CBusNetId p n a g c = Inr x"
  shows "(kind_of x = Unit \<longrightarrow>
           (\<exists>nw ua. network x = Some nw \<and> unitAddress x = Some ua \<and>
              lower_hex_of (unit_fingerprint nw ua) (getHash x))) \<and>
         (kind_of x = Network \<or> kind_of x = Application \<or> kind_of x = Group \<longrightarrow>
           (\<exists>nw. network x = Some nw \<and>
              lower_hex_of
                (group_fingerprint nw (absent_as_0 (application x)) (absent_as_0 (group x)))
                (getHash x))) \<and>
         (kind_of x = Project \<longrightarrow> getHash x = project x)"
proof (intro conjI impI)
  assume "kind_of x = Unit"
  then show "\<exists>nw ua. network x = Some nw \<and> unitAddress x = Some ua \<and>
      lower_hex_of (unit_fingerprint nw ua) (getHash x)"
    by (rule constructed_unit_hash [OF assms])
next
  assume "kind_of x = Network \<or> kind_of x = Application \<or> kind_of x = Group"
  then show "\<exists>nw. network x = Some nw \<and>
      lower_hex_of (group_fingerprint nw (absent_as_0 (application x)) (absent_as_0 (group x)))
        (getHash x)"
    by (rule constructed_group_hash [OF assms])
next
  assume "kind_of x = Project"
  then show "getHash x = project x"
    by (simp add: kind_of_def getHash_def isProjectId_def split: if_splits)
qed

theorem getHash_is_fingerprint_witness:
  "parse ''//SHAC/254/p/22'' = Inr shac_254_p_22 \<and> kind_of shac_254_p_22 = Unit \<and>
   unit_fingerprint 254 22 = 50200598 \<and> getHash shac_254_p_22 = ''2fe0016'' \<and>
   lower_hex_of (unit_fingerprint 254 22) (getHash shac_254_p_22) \<and>
   parse ''//SHAC/254/56/191/3'' = Inr shac_254_56_191_ch3 \<and> kind_of shac_254_56_191_ch3 = Group \<and>
   group_fingerprint 254 56 191 = 33437887 \<and> getHash shac_254_56_191_ch3 = ''1fe38bf'' \<and>
   lower_hex_of (group_fingerprint 254 56 191) (getHash shac_254_56_191_ch3) \<and>
   parse ''//SHAC/254'' = Inr shac_254 \<and> kind_of shac_254 = Network \<and>
   getHash shac_254 = ''1fe0000'' \<and>
   lower_hex_of (group_fingerprint 254 0 0) (getHash shac_254) \<and>
   parse ''//SHAC'' = Inr (project_only ''SHAC'') \<and> kind_of (project_only ''SHAC'') = Project \<and>
   getHash (project_only ''SHAC'') = ''SHAC''"
  using getHash_is_fingerprint [of "Str ''SHAC''" "Str ''254''" "Str ''p''" "Str ''22''" Undefined
      shac_254_p_22]
    getHash_is_fingerprint [of "Str ''SHAC''" "Str ''254''" "Str ''56''" "Str ''191''" "Str ''3''"
      shac_254_56_191_ch3]
    getHash_is_fingerprint [of "Str ''SHAC''" "Str ''254''" Undefined Undefined Undefined shac_254]
    getHash_is_fingerprint [of "Str ''SHAC''" Undefined Undefined Undefined Undefined
      "project_only ''SHAC''"]
  by (simp add: parse_def regex_defs constructor_defs char_class_defs predicate_defs rendering_defs
      kind_of_def unit_fingerprint_def group_fingerprint_def lower_hex_of_def is_lower_hex_def
      hex_value_def hex_digit_val_def)

section \<open>Order of the validation rules\<close>

lemma validatedProjectName_Str:
  "validatedProjectName (Str s) =
     (if invalid_project_name (Str s)
      then Inl (InvalidProjectName
             (if s \<in> set cgateReservedWords then ReservedWord
              else if match_CMDn s then ReservedCMDn
              else if match_all_numeric s then AllNumeric else BadFormat) s)
      else Inr s)"
  by simp

lemma validatedNumber_outside:
  "validatedNumber v nm =
     (if outside_byte v then Inl (OutOfRange nm (the (integerise v))) else Inr (integerise v))"
  by (simp add: validatedNumber_def outside_byte_def split: option.splits)

lemma falsy_integerise: "\<not> truthy v \<Longrightarrow> integerise v = None \<or> integerise v = Some 0"
  by (cases v) (simp_all add: string_to_int_def)

lemma channel_stage:
  "(if truthy v then validatedChannelNumber v else Inr None) =
     (if channel_outside v then Inl (OutOfRange ''channel'' (the (integerise v)))
      else Inr (if truthy v then integerise v else None))"
proof (cases "truthy v")
  case True
  then show ?thesis
    by (auto simp: validatedChannelNumber_def channel_outside_def split: option.splits)
next
  case False
  with falsy_integerise [of v] show ?thesis
    by (auto simp: channel_outside_def)
qed

lemma unit_branch_stages:
  "unit_branch g =
     (if outside_byte g then Inl (OutOfRange ''unitAddress'' (the (integerise g)))
      else if integerise g = None then Inl MissingUnitAddress
      else Inr (integerise g, None, None))"
  by (simp add: unit_branch_def validatedNumber_outside)

lemma group_branch_stages:
  "group_branch a g =
     (if outside_byte a then Inl (OutOfRange ''application'' (the (integerise a)))
      else if outside_byte g then Inl (OutOfRange ''group'' (the (integerise g)))
      else if integerise g \<noteq> None \<and> integerise a = None
        then Inl (InvalidCombination GroupNeedsApplication)
      else Inr (None, integerise a, integerise g))"
  by (simp add: group_branch_def validatedNumber_outside)

lemma failure_category_after_name:
  assumes "\<not> invalid_project_name (Str s)"
  shows "failure_category (CBusNetId (Str s) n a g c) =
     (if out_of_range n a g c then Some CatOutOfRange
      else if missing_unit_address a g then Some CatMissingUnitAddress
      else if invalid_combination n a g then Some CatInvalidCombination
      else None)"
proof (cases "a = Str ''p''")
  case True
  show ?thesis
    using assms unfolding CBusNetId_def validatedProjectName_Str channel_stage validatedNumber_outside
    by (simp add: True unit_branch_stages out_of_range_def missing_unit_address_def
        invalid_combination_def)
next
  case False
  show ?thesis
    using assms unfolding CBusNetId_def validatedProjectName_Str channel_stage validatedNumber_outside
    by (auto simp: False group_branch_stages out_of_range_def missing_unit_address_def
        invalid_combination_def)
qed



section \<open>The language of the parser's regular expression\<close>

lemma recognises_lit: "recognises (lit t) {t}"
proof -
  have "(take (length t) s = t \<and> r = drop (length t) s) = (s = t @ r)" for s r
    by (metis append_eq_conv_conj)
  then show ?thesis
    by (auto simp: recognises_def lit_def)
qed

lemma takeWhile_prefix_length:
  assumes "list_all p w" and "length w \<le> hi"
  shows "length w \<le> length (takeWhile p (take hi (w @ r)))"
proof -
  have "takeWhile p (take hi (w @ r)) = w @ takeWhile p (take (hi - length w) r)"
    using assms by (simp add: takeWhile_append2 list_all_iff)
  then show ?thesis by simp
qed

lemma take_within_takeWhile:
  assumes "k \<le> length (takeWhile p (take hi s))"
  shows "list_all p (take k s)" and "length (take k s) = k" and "k \<le> hi"
proof -
  let ?t = "takeWhile p (take hi s)"
  have len: "length ?t \<le> length (take hi s)"
    by (rule length_takeWhile_le)
  then have k: "k \<le> hi" "k \<le> length s"
    using assms by simp_all
  have "take k ?t = take k (take hi s)"
    using assms by (metis takeWhile_eq_take take_take min.absorb1 min.commute)
  then have "take k s = take k ?t"
    using k by (simp add: min.absorb1)
  moreover have "list_all p ?t"
    by (simp add: list_all_iff) (meson set_takeWhileD)
  ultimately show "list_all p (take k s)"
    by (metis append_take_drop_id list_all_append)
  show "length (take k s) = k" "k \<le> hi"
    using k by simp_all
qed

lemma recognises_rep_class: "recognises (rep_class p lo hi) (run p lo hi)"
  unfolding recognises_def
proof (intro allI)
  fix s r
  let ?m = "length (takeWhile p (take hi s))"
  have res: "(r \<in> snd ` set (rep_class p lo hi s)) = (\<exists>k. lo \<le> k \<and> k \<le> ?m \<and> r = drop k s)"
    by (auto simp: rep_class_def Let_def image_iff)
  show "(r \<in> snd ` set (rep_class p lo hi s)) = (\<exists>w. w \<in> run p lo hi \<and> s = w @ r)"
  proof
    assume "r \<in> snd ` set (rep_class p lo hi s)"
    then obtain k where k: "lo \<le> k" "k \<le> ?m" "r = drop k s"
      using res by blast
    have "take k s \<in> run p lo hi"
      using take_within_takeWhile [OF k(2)] k(1) by (simp add: run_def)
    then show "\<exists>w. w \<in> run p lo hi \<and> s = w @ r"
      using k(3) by (metis append_take_drop_id)
  next
    assume "\<exists>w. w \<in> run p lo hi \<and> s = w @ r"
    then obtain w where w: "lo \<le> length w" "length w \<le> hi" "list_all p w" "s = w @ r"
      by (auto simp: run_def)
    have "length w \<le> ?m"
      unfolding w(4) by (rule takeWhile_prefix_length [OF w(3,2)])
    then show "r \<in> snd ` set (rep_class p lo hi s)"
      unfolding res using w by (intro exI [of _ "length w"]) simp
  qed
qed

lemma recognises_opt:
  assumes "recognises m L"
  shows "recognises (opt m) (optional L)"
proof -
  have "snd ` set (opt m s) = insert s (snd ` set (m s))" for s
    by (force simp: opt_def image_iff)
  then show ?thesis
    using assms by (auto simp: recognises_def optional_def)
qed

lemma recognises_alt:
  assumes "recognises m1 A" and "recognises m2 B"
  shows "recognises (alt m1 m2) (A \<union> B)"
  using assms by (auto simp: recognises_def alt_def image_Un)

lemma recognises_seq:
  assumes "recognises m A" and "\<And>a. recognises (f a) B"
  shows "recognises (seq m f) (conc A B)"
  unfolding recognises_def
proof (intro allI)
  fix s r
  have "(r \<in> snd ` set (seq m f s)) = (\<exists>a r1. (a, r1) \<in> set (m s) \<and> r \<in> snd ` set (f a r1))"
    by (force simp: seq_def)
  also have "\<dots> = (\<exists>r1. r1 \<in> snd ` set (m s) \<and> (\<exists>w2. w2 \<in> B \<and> r1 = w2 @ r))"
    using assms(2) by (force simp: recognises_def)
  also have "\<dots> = (\<exists>w1 w2. w1 \<in> A \<and> w2 \<in> B \<and> s = w1 @ w2 @ r)"
    using assms(1) by (auto simp: recognises_def)
  also have "\<dots> = (\<exists>w. w \<in> conc A B \<and> s = w @ r)"
    by (auto simp: conc_def) (metis append.assoc)+
  finally show "(r \<in> snd ` set (seq m f s)) = (\<exists>w. w \<in> conc A B \<and> s = w @ r)" .
qed

lemma recognises_seq_ret:
  assumes "recognises m A"
  shows "recognises (seq m (\<lambda>a. ret (f a))) A"
proof -
  have "snd ` set (seq m (\<lambda>a. ret (f a)) s) = snd ` set (m s)" for s
    by (force simp: seq_def ret_def)
  then show ?thesis
    using assms by (simp add: recognises_def)
qed

lemma first_match_iff:
  assumes "recognises m L"
  shows "(first_match m s \<noteq> None) = (s \<in> L)"
proof -
  have "(first_match m s \<noteq> None) = (filter (\<lambda>(a, r). r = []) (m s) \<noteq> [])"
    by (simp add: first_match_def split: list.splits prod.splits)
  also have "\<dots> = (\<exists>x \<in> set (m s). snd x = [])"
    by (simp add: filter_empty_conv case_prod_beta)
  also have "\<dots> = ([] \<in> snd ` set (m s))"
    by (simp add: image_iff) metis
  also have "\<dots> = (s \<in> L)"
    using assms by (simp add: recognises_def)
  finally show ?thesis .
qed

lemma conc_empty_word: "conc A {[]} = A"
  by (auto simp: conc_def)

lemma recognises_digits13: "recognises digits13 (run is_digit 1 3)"
  unfolding digits13_def by (rule recognises_rep_class)

lemma recognises_slash_digits:
  "recognises (seq (lit ''/'') (\<lambda>_. digits13)) (conc {''/''} (run is_digit 1 3))"
  by (intro recognises_seq recognises_lit recognises_digits13)

lemma recognises_group_part:
  "recognises group_part (optional (conc {''/''} (run is_digit 1 3)))"
  unfolding group_part_def by (intro recognises_opt recognises_slash_digits)

lemma recognises_app_part:
  "recognises app_part
     (optional (conc {''/''} (conc ({''p''} \<union> run is_digit 1 3)
        (optional (conc {''/''} (run is_digit 1 3))))))"
  unfolding app_part_def
  by (intro recognises_opt recognises_seq recognises_lit recognises_alt recognises_digits13
      recognises_seq_ret recognises_group_part)

lemma recognises_network_part: "recognises network_part hierarchy_language"
  unfolding network_part_def hierarchy_language_def
  by (intro recognises_opt recognises_seq recognises_lit recognises_digits13
      recognises_seq_ret recognises_app_part)

lemma recognises_NETID_REGEX: "recognises NETID_REGEX regex_netid_language"
  unfolding NETID_REGEX_def regex_netid_language_def
  by (intro recognises_seq recognises_lit recognises_rep_class recognises_network_part
      recognises_opt recognises_seq_ret recognises_digits13)

lemma recognises_spec_netid_matcher: "recognises spec_netid_matcher spec_netid_language"
  unfolding spec_netid_matcher_def spec_netid_language_def
  by (intro recognises_seq recognises_lit recognises_rep_class recognises_network_part
      recognises_opt recognises_seq_ret recognises_slash_digits)

lemma matches_spec_grammar_iff: "matches_spec_grammar s = (s \<in> spec_netid_language)"
  unfolding matches_spec_grammar_def by (rule first_match_iff [OF recognises_spec_netid_matcher])

lemma conc_mono: "A \<subseteq> A' \<Longrightarrow> B \<subseteq> B' \<Longrightarrow> conc A B \<subseteq> conc A' B'"
  by (auto simp: conc_def)

lemma slash_channel_subset:
  "optional (conc {''/''} D) \<subseteq> conc (optional {''/''}) (optional D)"
proof -
  have "CHR ''/'' # b = ''/'' @ b" for b
    by simp
  then show ?thesis
    unfolding optional_def conc_def by blast
qed

lemma spec_language_subset: "spec_netid_language \<subseteq> regex_netid_language"
  unfolding spec_netid_language_def regex_netid_language_def
  by (intro conc_mono subset_refl slash_channel_subset)

lemma CBusNetId_not_malformed: "CBusNetId p n a g c \<noteq> Inl (MalformedNetId t)"
proof (cases p)
  case Undefined
  then show ?thesis by (simp add: CBusNetId_def)
next
  case (Num k)
  then show ?thesis by (simp add: CBusNetId_def)
next
  case (Str s)
  show ?thesis
  proof (cases "invalid_project_name (Str s)")
    case True
    then show ?thesis
      unfolding Str CBusNetId_def validatedProjectName_Str by simp
  next
    case False
    have "failure_category (CBusNetId (Str s) n a g c) \<noteq> Some CatMalformedNetId"
      unfolding failure_category_after_name [OF False] by simp
    then show ?thesis
      unfolding Str by (cases "CBusNetId (Str s) n a g c") auto
  qed
qed

lemma parse_malformed_iff:
  "(parse s = Inl (MalformedNetId t)) = (first_match NETID_REGEX s = None \<and> t = s)"
  by (auto simp: parse_def CBusNetId_not_malformed split: option.splits)

section \<open>Parsing\<close>

lemma conc_union_right: "conc A (B \<union> C) = conc A B \<union> conc A C"
  by (auto simp: conc_def)

lemma conc_optional_left: "conc (optional A) B = B \<union> conc A B"
proof -
  have "b \<in> conc (optional A) B" if "b \<in> B" for b
    using that append_Nil [of b] unfolding conc_def optional_def by blast
  then show ?thesis
    by (auto simp: conc_def optional_def)
qed

lemma slash_and_digits_split:
  "conc (optional {''/''}) (optional D) = optional (conc {''/''} (optional D)) \<union> D"
  unfolding conc_optional_left by (auto simp: optional_def)

lemma regex_netid_language_split:
  "regex_netid_language = trailing_slash_netid_language \<union> glued_digits_language"
  unfolding regex_netid_language_def trailing_slash_netid_language_def glued_digits_language_def
  by (simp only: slash_and_digits_split conc_union_right)

lemma spec_language_trailing_slash: "spec_netid_language \<subseteq> trailing_slash_netid_language"
  unfolding spec_netid_language_def trailing_slash_netid_language_def
  by (intro conc_mono subset_refl) (auto simp: optional_def conc_def)

lemma recognises_trailing_slash_netid_matcher:
  "recognises trailing_slash_netid_matcher trailing_slash_netid_language"
proof -
  have "recognises (seq (lit ''/'') (\<lambda>_. opt digits13)) (conc {''/''} (optional (run is_digit 1 3)))"
    by (intro recognises_seq recognises_lit recognises_opt recognises_digits13)
  then have "recognises (opt (seq (lit ''/'') (\<lambda>_. opt digits13)))
      (optional (conc {''/''} (optional (run is_digit 1 3))))"
    by (rule recognises_opt)
  then have "recognises (seq (opt (seq (lit ''/'') (\<lambda>_. opt digits13))) (\<lambda>_. ret ()))
      (optional (conc {''/''} (optional (run is_digit 1 3))))"
    by (rule recognises_seq_ret)
  then show ?thesis
    unfolding trailing_slash_netid_matcher_def trailing_slash_netid_language_def
    by (intro recognises_seq recognises_lit recognises_rep_class recognises_network_part)
qed

lemma matches_trailing_slash_grammar_iff:
  "matches_trailing_slash_grammar s = (s \<in> trailing_slash_netid_language)"
  unfolding matches_trailing_slash_grammar_def
  by (rule first_match_iff [OF recognises_trailing_slash_netid_matcher])

text \<open>
  What the regular expression matches as a whole, glued digits included: \<open>parse\<close> reports
  a malformed identifier exactly on the texts outside it.
\<close>

lemma parse_malformed_iff_outside_regex_language:
  "(parse s = Inl (MalformedNetId t)) = (s \<notin> regex_netid_language \<and> t = s)"
proof -
  have "(first_match NETID_REGEX s = None) = (s \<notin> regex_netid_language)"
    using first_match_iff [OF recognises_NETID_REGEX, of s] by blast
  then show ?thesis
    by (simp add: parse_malformed_iff)
qed

text \<open>
  C4, as stated: every text outside the grammar of the spec, such as one with a bare
  trailing slash, is rejected as malformed. The text \<open>//SHAC/\<close> is outside that grammar
  and parses to the project identifier.
\<close>

theorem trailing_slash_counterexample:
  "''//SHAC/'' \<notin> spec_netid_language \<and> parse ''//SHAC/'' = Inr (project_only ''SHAC'')"
  unfolding matches_spec_grammar_iff [symmetric]
  by (simp add: matches_spec_grammar_def spec_netid_matcher_def parse_def regex_defs
      constructor_defs char_class_defs)

text \<open>
  C4, amended: the grammar that \<open>parse\<close> accepts lets a text end in a bare slash,
  \<open>"//" project ("/" network ("/" appOrUnit ("/" group)?)?)? ("/" channel?)?\<close>. Every
  text of that grammar, hence every text of the spec's grammar, is not rejected as
  malformed. Every text outside it is rejected as malformed, carrying the text, unless
  it can be read as project and hierarchy followed at once by one to three more digits;
  of those texts nothing is stated.
\<close>

theorem parse_malformed_outside_trailing_slash_grammar:
  "(netIdString \<in> spec_netid_language \<longrightarrow> netIdString \<in> trailing_slash_netid_language) \<and>
   (netIdString \<in> trailing_slash_netid_language \<longrightarrow>
      (\<forall>t. parse netIdString \<noteq> Inl (MalformedNetId t))) \<and>
   (netIdString \<notin> trailing_slash_netid_language \<and> netIdString \<notin> glued_digits_language \<longrightarrow>
      parse netIdString = Inl (MalformedNetId netIdString))"
  using spec_language_trailing_slash
  by (auto simp: parse_malformed_iff_outside_regex_language regex_netid_language_split)

theorem parse_malformed_outside_trailing_slash_grammar_witness:
  "''//SHAC/'' \<in> trailing_slash_netid_language \<and>
   parse ''//SHAC/'' = Inr (project_only ''SHAC'') \<and>
   ''//SHAC/254/56/191/8'' \<in> spec_netid_language \<and>
   ''//SHAC/254/56/191/8'' \<in> trailing_slash_netid_language \<and>
   parse ''//SHAC/254/56/191/8'' = Inl (OutOfRange ''channel'' 8) \<and>
   ''//SHAC//3'' \<notin> trailing_slash_netid_language \<and> ''//SHAC//3'' \<notin> glued_digits_language \<and>
   parse ''//SHAC//3'' = Inl (MalformedNetId ''//SHAC//3'') \<and>
   ''//SHAC/254/q'' \<notin> trailing_slash_netid_language \<and>
   ''//SHAC/254/q'' \<notin> glued_digits_language \<and>
   parse ''//SHAC/254/q'' = Inl (MalformedNetId ''//SHAC/254/q'')"
proof -
  have "''//SHAC//3'' \<notin> regex_netid_language" "''//SHAC/254/q'' \<notin> regex_netid_language"
    using first_match_iff [OF recognises_NETID_REGEX, of "''//SHAC//3''"]
      first_match_iff [OF recognises_NETID_REGEX, of "''//SHAC/254/q''"]
    by (simp_all add: regex_defs char_class_defs)
  then have out: "''//SHAC//3'' \<notin> trailing_slash_netid_language"
    "''//SHAC//3'' \<notin> glued_digits_language"
    "''//SHAC/254/q'' \<notin> trailing_slash_netid_language"
    "''//SHAC/254/q'' \<notin> glued_digits_language"
    by (simp_all add: regex_netid_language_split)
  have inside: "''//SHAC/'' \<in> trailing_slash_netid_language"
    "''//SHAC/254/56/191/8'' \<in> spec_netid_language"
    unfolding matches_spec_grammar_iff [symmetric] matches_trailing_slash_grammar_iff [symmetric]
    by (simp_all add: matches_spec_grammar_def spec_netid_matcher_def
        matches_trailing_slash_grammar_def trailing_slash_netid_matcher_def regex_defs
        char_class_defs)
  show ?thesis
    using parse_malformed_outside_trailing_slash_grammar [of "''//SHAC/''"]
      parse_malformed_outside_trailing_slash_grammar [of "''//SHAC/254/56/191/8''"]
      parse_malformed_outside_trailing_slash_grammar [of "''//SHAC//3''"]
      parse_malformed_outside_trailing_slash_grammar [of "''//SHAC/254/q''"]
      out inside
    by (simp add: parse_def regex_defs constructor_defs char_class_defs)
qed

section \<open>Invariants of constructed identifiers\<close>

text \<open>
  What the constructor does check: a group only with an application, an application only
  with a network, a unit address only with a network; and a channel that is present
  (not 0) lies between 1 and 7.
\<close>

lemma constructed_hierarchy:
  assumes "CBusNetId p n a g c = Inr x \<or> parse s = Inr x"
  shows "(group x \<noteq> None \<longrightarrow> application x \<noteq> None) \<and>
         (application x \<noteq> None \<longrightarrow> network x \<noteq> None) \<and>
         (unitAddress x \<noteq> None \<longrightarrow> network x \<noteq> None) \<and>
         (has_channel x \<longrightarrow> (\<exists>i. channel x = Some i \<and> 1 \<le> i \<and> i \<le> 7))"
proof -
  from assms obtain p' n' a' g' c' where ok: "CBusNetId p' n' a' g' c' = Inr x"
    using parse_Inr by blast
  have "has_channel x \<longrightarrow> (\<exists>i. channel x = Some i \<and> 1 \<le> i \<and> i \<le> 7)"
    using CBusNetId_Inr(5) [OF ok] by (auto simp: has_channel_def)
  then show ?thesis
    using CBusNetId_Inr(9-11) [OF ok] by blast
qed

text \<open>
  C3. The claim asks that no identifier returned by the constructor or by \<open>parse\<close> have a
  channel without a group. The constructor checks the range of the channel and nothing
  else about it: with network 254, no application, no group and channel 3 it returns an
  identifier whose channel is set and whose group is absent, and whose string form has
  no place for the channel; \<open>parse\<close> returns another from \<open>//SHAC/254/p/22/3\<close>, a text of
  the spec's grammar.
\<close>

theorem channel_without_group_is_constructed:
  "CBusNetId (Str ''SHAC'') (Num 254) Undefined Undefined (Num 3) = Inr shac_254_ch3 \<and>
   channel shac_254_ch3 = Some 3 \<and> group shac_254_ch3 = None \<and>
   toString shac_254_ch3 = ''//SHAC/254'' \<and>
   ''//SHAC/254/p/22/3'' \<in> spec_netid_language \<and>
   parse ''//SHAC/254/p/22/3'' = Inr shac_254_p_22_ch3 \<and>
   channel shac_254_p_22_ch3 = Some 3 \<and> group shac_254_p_22_ch3 = None"
  unfolding matches_spec_grammar_iff [symmetric]
  by (simp add: matches_spec_grammar_def spec_netid_matcher_def parse_def regex_defs
      constructor_defs char_class_defs predicate_defs rendering_defs)

section \<open>What holds of the ordering\<close>

lemma compare_values: "compare a b = - 1 \<or> compare a b = 1"
  by (simp add: compare_def)

lemma compare_before_iff:
  "(compare a b = - 1) =
     (project a < project b \<or>
      project a = project b \<and> (\<not> isUnitId a \<and> isUnitId b \<or>
        isUnitId a = isUnitId b \<and> getHash a < getHash b))"
  by (auto simp: compare_def)

lemma compare_antisymmetric_unless_equal:
  assumes "\<not> isEquals a b"
  shows "compare a b = - compare b a"
proof (cases "project a = project b")
  case False
  then show ?thesis
    by (auto simp: compare_def)
next
  case True
  with assms have "getHash a \<noteq> getHash b"
    by (simp add: isEquals_def)
  with True show ?thesis
    by (auto simp: compare_def)
qed

lemma compare_transitive:
  assumes "compare a b = - 1" and "compare b c = - 1"
  shows "compare a c = - 1"
  using assms unfolding compare_before_iff by (auto intro: less_trans)

section \<open>Decimal rendering of a byte\<close>

lemma below_10_cases:
  assumes "d < (10::nat)"
  shows "d \<in> {0, 1, 2, 3, 4, 5, 6, 7, 8, 9}"
  using assms by auto

lemma digit_char_decimal:
  assumes "d < 10"
  shows "is_digit (digit_char d)" and "digit_val (digit_char d) = d"
  using below_10_cases [OF assms] by (auto simp: digit_char_def is_digit_def digit_val_def)

lemma parse_nat_snoc: "parse_nat (s @ [c]) = 10 * parse_nat s + digit_val c"
  by (simp add: parse_nat_def)

lemma digits_of_10:
  "digits_of 10 n \<noteq> [] \<and> list_all is_digit (digits_of 10 n) \<and> parse_nat (digits_of 10 n) = n"
proof (induction "10::nat" n rule: digits_of.induct)
  case (1 n)
  show ?case
  proof (cases "n < 10")
    case True
    then have eq: "digits_of 10 n = [digit_char n]"
      by (simp add: digits_of.simps)
    show ?thesis
      unfolding eq using digit_char_decimal [OF True] by (simp add: parse_nat_def)
  next
    case False
    then have eq: "digits_of 10 n = digits_of 10 (n div 10) @ [digit_char (n mod 10)]"
      by (subst digits_of.simps) simp
    have m: "n mod 10 < 10" by simp
    from False have IH: "digits_of 10 (n div 10) \<noteq> [] \<and>
        list_all is_digit (digits_of 10 (n div 10)) \<and>
        parse_nat (digits_of 10 (n div 10)) = n div 10"
      using "1" by simp
    show ?thesis
      unfolding eq using IH digit_char_decimal [OF m] by (simp add: parse_nat_snoc)
  qed
qed

lemma digits_of_10_length:
  assumes "n < 1000"
  shows "length (digits_of 10 n) \<le> 3"
proof -
  have one: "length (digits_of 10 k) = 1" if "k < 10" for k
    using that by (simp add: digits_of.simps)
  have two: "length (digits_of 10 k) \<le> 2" if "k < 100" for k
  proof (cases "k < 10")
    case True
    then show ?thesis by (simp add: one)
  next
    case False
    then have "digits_of 10 k = digits_of 10 (k div 10) @ [digit_char (k mod 10)]"
      by (subst digits_of.simps) simp
    moreover have "k div 10 < 10" using that by simp
    ultimately show ?thesis by (simp add: one)
  qed
  show ?thesis
  proof (cases "n < 10")
    case True
    then show ?thesis by (simp add: one)
  next
    case False
    then have "digits_of 10 n = digits_of 10 (n div 10) @ [digit_char (n mod 10)]"
      by (subst digits_of.simps) simp
    moreover have "n div 10 < 100" using assms by simp
    ultimately show ?thesis using two [of "n div 10"] by simp
  qed
qed

lemma is_digit_not_minus: "is_digit c \<Longrightarrow> c \<noteq> CHR ''-''"
  by (auto simp: is_digit_def)

lemma string_to_int_digits:
  assumes "s \<noteq> []" and "list_all is_digit s"
  shows "string_to_int s = Some (int (parse_nat s))"
proof -
  from assms obtain c ds where s: "s = c # ds" and "is_digit c"
    by (cases s) auto
  then show ?thesis
    using assms is_digit_not_minus [of c] by (simp add: string_to_int_def)
qed

lemma template_byte:
  assumes "0 \<le> v" and "v \<le> 255"
  shows "template (Some v) \<in> run is_digit 1 3"
    and "integerise (Str (template (Some v))) = Some v"
proof -
  have t: "template (Some v) = digits_of 10 (nat v)"
    using assms by (simp add: Number_toString_def)
  have len: "length (digits_of 10 (nat v)) \<le> 3"
    using assms by (intro digits_of_10_length) simp
  have ne: "1 \<le> length (digits_of 10 (nat v))"
    using digits_of_10 [of "nat v"] by (cases "digits_of 10 (nat v)") simp_all
  show "template (Some v) \<in> run is_digit 1 3"
    unfolding t using digits_of_10 [of "nat v"] len ne by (simp add: run_def)
  show "integerise (Str (template (Some v))) = Some v"
    unfolding t using digits_of_10 [of "nat v"] assms by (simp add: string_to_int_digits)
qed

section \<open>The match tried first\<close>

lemma first_result_complete:
  assumes "first_result m s = Some (a, [])"
  shows "first_match m s = Some a"
  using assms by (auto simp: first_result_def first_match_def split: list.splits)

lemma first_result_lit: "first_result (lit t) (t @ r) = Some (t, r)"
  by (simp add: first_result_def lit_def)

lemma first_result_lit_other:
  assumes "take (length t) s \<noteq> t"
  shows "first_result (lit t) s = None"
  using assms by (simp add: first_result_def lit_def)

lemma first_result_ret: "first_result (ret a) s = Some (a, s)"
  by (simp add: first_result_def ret_def)

lemma first_result_seq:
  assumes "first_result m s = Some (a, r)" and "first_result (f a) r = Some x"
  shows "first_result (seq m f) s = Some x"
  using assms by (auto simp: first_result_def seq_def split: list.splits)

lemma first_result_opt:
  "first_result (opt m) s =
     (case first_result m s of None \<Rightarrow> Some (None, s) | Some (a, r) \<Rightarrow> Some (Some a, r))"
  by (auto simp: first_result_def opt_def split: list.splits)

lemma first_result_alt:
  "first_result (alt m1 m2) s =
     (case first_result m1 s of None \<Rightarrow> first_result m2 s | Some x \<Rightarrow> Some x)"
  by (auto simp: first_result_def alt_def split: list.splits)

lemma first_result_rep_class:
  assumes "w \<in> run p lo hi" and "r = [] \<or> \<not> p (hd r)"
  shows "first_result (rep_class p lo hi) (w @ r) = Some (w, r)"
proof -
  from assms(1) have w: "lo \<le> length w" "length w \<le> hi" "list_all p w"
    by (simp_all add: run_def)
  have "takeWhile p (take hi (w @ r)) = w @ takeWhile p (take (hi - length w) r)"
    using w by (simp add: takeWhile_append2 list_all_iff)
  moreover have "takeWhile p (take (hi - length w) r) = []"
    using assms(2) by (cases r; cases "hi - length w") auto
  ultimately have m: "length (takeWhile p (take hi (w @ r))) = length w"
    by simp
  have "rep_class p lo hi (w @ r) =
      map (\<lambda>k. (take k (w @ r), drop k (w @ r))) (rev [lo ..< Suc (length w)])"
    by (simp only: rep_class_def Let_def m)
  also have "rev [lo ..< Suc (length w)] = length w # rev [lo ..< length w]"
    using w(1) by simp
  finally show ?thesis
    by (simp add: first_result_def)
qed

lemma first_result_rep_class_none:
  assumes "s = [] \<or> \<not> p (hd s)" and "0 < lo"
  shows "first_result (rep_class p lo hi) s = None"
proof -
  have "takeWhile p (take hi s) = []"
    using assms(1) by (cases s; cases hi) auto
  then show ?thesis
    using assms(2) by (simp add: first_result_def rep_class_def)
qed

section \<open>Parsing a canonical string\<close>

lemma first_result_seq_none:
  assumes "first_result m s = None"
  shows "first_result (seq m f) s = None"
  using assms by (simp add: first_result_def seq_def split: list.splits)

lemma slash_in_no_class: "\<not> is_digit CHR ''/''" "\<not> is_name_char CHR ''/''"
  by (simp_all add: is_digit_def is_name_char_def is_upper_def)

lemma first_result_slash: "first_result (lit ''/'') (CHR ''/'' # r) = Some (''/'', r)"
  using first_result_lit [of "''/''" r] by simp

lemma first_result_slash_none:
  assumes "s = [] \<or> hd s \<noteq> CHR ''/''"
  shows "first_result (lit ''/'') s = None"
  using assms by (cases s) (simp_all add: first_result_def lit_def)

lemma first_result_digits13:
  assumes "d \<in> run is_digit 1 3" and "r = [] \<or> hd r = CHR ''/''"
  shows "first_result digits13 (d @ r) = Some (d, r)"
  unfolding digits13_def using assms slash_in_no_class(1)
  by (intro first_result_rep_class) auto

lemma first_result_digits13_none:
  assumes "s = [] \<or> hd s = CHR ''/''"
  shows "first_result digits13 s = None"
  unfolding digits13_def using assms slash_in_no_class(1)
  by (intro first_result_rep_class_none) auto

lemma first_result_slash_then:
  assumes "first_result (f ''/'') s = Some x"
  shows "first_result (seq (lit ''/'') f) (CHR ''/'' # s) = Some x"
  using first_result_slash assms by (rule first_result_seq)

lemma first_result_digits13_then:
  assumes "d \<in> run is_digit 1 3" and "r = [] \<or> hd r = CHR ''/''"
    and "first_result (f d) r = Some x"
  shows "first_result (seq digits13 f) (d @ r) = Some x"
  using first_result_digits13 [OF assms(1,2)] assms(3) by (rule first_result_seq)

lemma first_result_group_part:
  assumes "d \<in> run is_digit 1 3" and "r = [] \<or> hd r = CHR ''/''"
  shows "first_result group_part [] = Some (None, [])"
    and "first_result group_part (CHR ''/'' # d @ r) = Some (Some d, r)"
proof -
  show "first_result group_part [] = Some (None, [])"
    by (simp add: group_part_def first_result_opt first_result_seq_none first_result_slash_none)
  have "first_result (seq (lit ''/'') (\<lambda>_. digits13)) (CHR ''/'' # d @ r) = Some (d, r)"
    by (intro first_result_slash_then first_result_digits13 assms)
  then show "first_result group_part (CHR ''/'' # d @ r) = Some (Some d, r)"
    by (simp add: group_part_def first_result_opt)
qed

lemma digits_not_p:
  assumes "d \<in> run is_digit 1 3"
  shows "first_result (alt (lit ''p'') digits13) (d @ r) = first_result digits13 (d @ r)"
proof -
  from assms obtain c cs where d: "d = c # cs" and "is_digit c"
    by (cases d) (auto simp: run_def)
  then have "c \<noteq> CHR ''p''"
    by (auto simp: is_digit_def)
  then have "first_result (lit ''p'') (d @ r) = None"
    by (simp add: d first_result_def lit_def)
  then show ?thesis
    by (simp add: first_result_alt)
qed

lemma first_result_app_part:
  assumes "first_result group_part r = Some (c4, r')"
  shows "first_result app_part [] = Some (None, [])"
    and "d \<in> run is_digit 1 3 \<Longrightarrow> r = [] \<or> hd r = CHR ''/'' \<Longrightarrow>
         first_result app_part (CHR ''/'' # d @ r) = Some (Some (d, c4), r')"
    and "first_result app_part (CHR ''/'' # CHR ''p'' # r) = Some (Some (''p'', c4), r')"
proof -
  show "first_result app_part [] = Some (None, [])"
    by (simp add: app_part_def first_result_opt first_result_seq_none first_result_slash_none)
  have tail: "first_result (seq group_part (\<lambda>c4. ret (c3, c4))) r = Some ((c3, c4), r')" for c3
    using assms first_result_ret by (rule first_result_seq)
  {
    assume d: "d \<in> run is_digit 1 3" "r = [] \<or> hd r = CHR ''/''"
    have "first_result (alt (lit ''p'') digits13) (d @ r) = Some (d, r)"
      using digits_not_p [OF d(1)] first_result_digits13 [OF d] by simp
    then have "first_result (seq (alt (lit ''p'') digits13)
          (\<lambda>c3. seq group_part (\<lambda>c4. ret (c3, c4)))) (d @ r) = Some ((d, c4), r')"
      using tail by (rule first_result_seq)
    then have "first_result (seq (lit ''/'') (\<lambda>_. seq (alt (lit ''p'') digits13)
          (\<lambda>c3. seq group_part (\<lambda>c4. ret (c3, c4))))) (CHR ''/'' # d @ r) = Some ((d, c4), r')"
      by (rule first_result_slash_then)
    then show "first_result app_part (CHR ''/'' # d @ r) = Some (Some (d, c4), r')"
      by (simp add: app_part_def first_result_opt)
  }
  have "first_result (alt (lit ''p'') digits13) (CHR ''p'' # r) = Some (''p'', r)"
    using first_result_lit [of "''p''" r] by (simp add: first_result_alt)
  then have "first_result (seq (alt (lit ''p'') digits13)
        (\<lambda>c3. seq group_part (\<lambda>c4. ret (c3, c4)))) (CHR ''p'' # r) = Some ((''p'', c4), r')"
    using tail by (rule first_result_seq)
  then have "first_result (seq (lit ''/'') (\<lambda>_. seq (alt (lit ''p'') digits13)
        (\<lambda>c3. seq group_part (\<lambda>c4. ret (c3, c4))))) (CHR ''/'' # CHR ''p'' # r)
      = Some ((''p'', c4), r')"
    by (rule first_result_slash_then)
  then show "first_result app_part (CHR ''/'' # CHR ''p'' # r) = Some (Some (''p'', c4), r')"
    by (simp add: app_part_def first_result_opt)
qed

lemma first_result_network_part:
  assumes "first_result app_part r = Some (g, r')"
  shows "first_result network_part [] = Some (None, [])"
    and "d \<in> run is_digit 1 3 \<Longrightarrow> r = [] \<or> hd r = CHR ''/'' \<Longrightarrow>
         first_result network_part (CHR ''/'' # d @ r) = Some (Some (d, g), r')"
proof -
  show "first_result network_part [] = Some (None, [])"
    by (simp add: network_part_def first_result_opt first_result_seq_none first_result_slash_none)
  have tail: "first_result (seq app_part (\<lambda>g. ret (c2, g))) r = Some ((c2, g), r')" for c2
    using assms first_result_ret by (rule first_result_seq)
  assume d: "d \<in> run is_digit 1 3" "r = [] \<or> hd r = CHR ''/''"
  have "first_result (seq digits13 (\<lambda>c2. seq app_part (\<lambda>g. ret (c2, g)))) (d @ r)
      = Some ((d, g), r')"
    using d tail by (rule first_result_digits13_then)
  then have "first_result (seq (lit ''/'') (\<lambda>_. seq digits13
        (\<lambda>c2. seq app_part (\<lambda>g. ret (c2, g))))) (CHR ''/'' # d @ r) = Some ((d, g), r')"
    by (rule first_result_slash_then)
  then show "first_result network_part (CHR ''/'' # d @ r) = Some (Some (d, g), r')"
    by (simp add: network_part_def first_result_opt)
qed

lemma first_match_NETID_REGEX:
  assumes nm: "nm \<in> run is_name_char 1 8" and r: "r = [] \<or> hd r = CHR ''/''"
    and g: "first_result network_part r = Some (g, r')"
  shows "r' = [] \<Longrightarrow>
         first_match NETID_REGEX (CHR ''/'' # CHR ''/'' # nm @ r) =
           Some (nm, map_option fst g, map_option fst (Option.bind g snd),
                 Option.bind (Option.bind g snd) snd, None)"
    and "ch \<in> run is_digit 1 3 \<Longrightarrow> r' = CHR ''/'' # ch \<Longrightarrow>
         first_match NETID_REGEX (CHR ''/'' # CHR ''/'' # nm @ r) =
           Some (nm, map_option fst g, map_option fst (Option.bind g snd),
                 Option.bind (Option.bind g snd) snd, Some ch)"
proof -
  let ?caps = "\<lambda>c1 g c5. (c1, map_option fst g, map_option fst (Option.bind g snd),
      Option.bind (Option.bind g snd) snd, c5)"
  let ?tail = "\<lambda>c1 g. seq (opt (lit ''/'')) (\<lambda>_. seq (opt digits13) (\<lambda>c5. ret (?caps c1 g c5)))"
  have name: "first_result (rep_class is_name_char 1 8) (nm @ r) = Some (nm, r)"
    using nm r slash_in_no_class(2) by (intro first_result_rep_class) auto
  have lead: "first_result (lit ''//'') (CHR ''/'' # CHR ''/'' # nm @ r) = Some (''//'', nm @ r)"
    using first_result_lit [of "''//''" "nm @ r"] by simp
  have whole: "first_result NETID_REGEX (CHR ''/'' # CHR ''/'' # nm @ r) = Some (x, [])"
    if "first_result (?tail nm g) r' = Some (x, [])" for x
  proof -
    have "first_result (seq network_part (?tail nm)) r = Some (x, [])"
      using g that by (rule first_result_seq)
    with name have "first_result (seq (rep_class is_name_char 1 8)
        (\<lambda>c1. seq network_part (?tail c1))) (nm @ r) = Some (x, [])"
      by (rule first_result_seq)
    with lead show ?thesis
      unfolding NETID_REGEX_def by (rule first_result_seq)
  qed
  {
    assume "r' = []"
    have t1: "first_result (opt digits13) [] = Some (None, [])"
      by (simp add: first_result_opt first_result_digits13_none)
    have t2: "first_result (seq (opt digits13) (\<lambda>c5. ret (?caps nm g c5))) []
        = Some (?caps nm g None, [])"
      using t1 first_result_ret by (rule first_result_seq)
    have t3: "first_result (opt (lit ''/'')) [] = Some (None, [])"
      by (simp add: first_result_opt first_result_slash_none)
    have "first_result (?tail nm g) [] = Some (?caps nm g None, [])"
      using t3 t2 by (rule first_result_seq)
    then have "first_result NETID_REGEX (CHR ''/'' # CHR ''/'' # nm @ r) = Some (?caps nm g None, [])"
      using \<open>r' = []\<close> by (intro whole) simp
    then show "first_match NETID_REGEX (CHR ''/'' # CHR ''/'' # nm @ r) = Some (?caps nm g None)"
      by (rule first_result_complete)
  }
  {
    assume ch: "ch \<in> run is_digit 1 3" and r': "r' = CHR ''/'' # ch"
    have "first_result digits13 (ch @ []) = Some (ch, [])"
      by (rule first_result_digits13 [OF ch]) simp
    then have t1: "first_result (opt digits13) ch = Some (Some ch, [])"
      by (simp add: first_result_opt)
    have t2: "first_result (seq (opt digits13) (\<lambda>c5. ret (?caps nm g c5))) ch
        = Some (?caps nm g (Some ch), [])"
      using t1 first_result_ret by (rule first_result_seq)
    have t3: "first_result (opt (lit ''/'')) (CHR ''/'' # ch) = Some (Some ''/'', ch)"
      by (simp add: first_result_opt first_result_slash)
    have "first_result (?tail nm g) (CHR ''/'' # ch) = Some (?caps nm g (Some ch), [])"
      using t3 t2 by (rule first_result_seq)
    then have "first_result NETID_REGEX (CHR ''/'' # CHR ''/'' # nm @ r)
        = Some (?caps nm g (Some ch), [])"
      using r' by (intro whole) simp
    then show "first_match NETID_REGEX (CHR ''/'' # CHR ''/'' # nm @ r) = Some (?caps nm g (Some ch))"
      by (rule first_result_complete)
  }
qed

lemma parse_canonical:
  assumes nm: "nm \<in> run is_name_char 1 8"
    and d: "d1 \<in> run is_digit 1 3" "d2 \<in> run is_digit 1 3" "d3 \<in> run is_digit 1 3"
      "ch \<in> run is_digit 1 3"
  shows "parse (''//'' @ nm) = CBusNetId (Str nm) Undefined Undefined Undefined Undefined"
    and "parse (''//'' @ nm @ ''/'' @ d1) = CBusNetId (Str nm) (Str d1) Undefined Undefined Undefined"
    and "parse (''//'' @ nm @ ''/'' @ d1 @ ''/'' @ d2)
         = CBusNetId (Str nm) (Str d1) (Str d2) Undefined Undefined"
    and "parse (''//'' @ nm @ ''/'' @ d1 @ ''/'' @ d2 @ ''/'' @ d3)
         = CBusNetId (Str nm) (Str d1) (Str d2) (Str d3) Undefined"
    and "parse (''//'' @ nm @ ''/'' @ d1 @ ''/'' @ d2 @ ''/'' @ d3 @ ''/'' @ ch)
         = CBusNetId (Str nm) (Str d1) (Str d2) (Str d3) (Str ch)"
    and "parse (''//'' @ nm @ ''/'' @ d1 @ ''/p/'' @ d2)
         = CBusNetId (Str nm) (Str d1) (Str ''p'') (Str d2) Undefined"
proof -
  note g0 = first_result_group_part(1) [OF d(1), of "[]"]
  note a0 = first_result_app_part(1) [OF g0]
  note n0 = first_result_network_part(1) [OF a0]
  have "first_match NETID_REGEX (CHR ''/'' # CHR ''/'' # nm @ []) = Some (nm, None, None, None, None)"
    using first_match_NETID_REGEX(1) [OF nm _ n0] by simp
  then show "parse (''//'' @ nm) = CBusNetId (Str nm) Undefined Undefined Undefined Undefined"
    by (simp add: parse_def)
  have n1: "first_result network_part (CHR ''/'' # d1) = Some (Some (d1, None), [])"
    using first_result_network_part(2) [OF a0 d(1)] by simp
  have "first_match NETID_REGEX (CHR ''/'' # CHR ''/'' # nm @ CHR ''/'' # d1)
      = Some (nm, Some d1, None, None, None)"
    using first_match_NETID_REGEX(1) [OF nm _ n1] by simp
  then show "parse (''//'' @ nm @ ''/'' @ d1)
      = CBusNetId (Str nm) (Str d1) Undefined Undefined Undefined"
    by (simp add: parse_def)
  have a2: "first_result app_part (CHR ''/'' # d2) = Some (Some (d2, None), [])"
    using first_result_app_part(2) [OF g0 d(2)] by simp
  have n2: "first_result network_part (CHR ''/'' # d1 @ CHR ''/'' # d2)
      = Some (Some (d1, Some (d2, None)), [])"
    using first_result_network_part(2) [OF a2 d(1)] by simp
  have "first_match NETID_REGEX (CHR ''/'' # CHR ''/'' # nm @ CHR ''/'' # d1 @ CHR ''/'' # d2)
      = Some (nm, Some d1, Some d2, None, None)"
    using first_match_NETID_REGEX(1) [OF nm _ n2] by simp
  then show "parse (''//'' @ nm @ ''/'' @ d1 @ ''/'' @ d2)
      = CBusNetId (Str nm) (Str d1) (Str d2) Undefined Undefined"
    by (simp add: parse_def)
  have g3: "first_result group_part (CHR ''/'' # d3) = Some (Some d3, [])"
    using first_result_group_part(2) [OF d(3), of "[]"] by simp
  have a3: "first_result app_part (CHR ''/'' # d2 @ CHR ''/'' # d3) = Some (Some (d2, Some d3), [])"
    using first_result_app_part(2) [OF g3 d(2)] by simp
  have n3: "first_result network_part (CHR ''/'' # d1 @ CHR ''/'' # d2 @ CHR ''/'' # d3)
      = Some (Some (d1, Some (d2, Some d3)), [])"
    using first_result_network_part(2) [OF a3 d(1)] by simp
  have "first_match NETID_REGEX
      (CHR ''/'' # CHR ''/'' # nm @ CHR ''/'' # d1 @ CHR ''/'' # d2 @ CHR ''/'' # d3)
      = Some (nm, Some d1, Some d2, Some d3, None)"
    using first_match_NETID_REGEX(1) [OF nm _ n3] by simp
  then show "parse (''//'' @ nm @ ''/'' @ d1 @ ''/'' @ d2 @ ''/'' @ d3)
      = CBusNetId (Str nm) (Str d1) (Str d2) (Str d3) Undefined"
    by (simp add: parse_def)
  have g4: "first_result group_part (CHR ''/'' # d3 @ CHR ''/'' # ch) = Some (Some d3, CHR ''/'' # ch)"
    using first_result_group_part(2) [OF d(3), of "CHR ''/'' # ch"] by simp
  have a4: "first_result app_part (CHR ''/'' # d2 @ CHR ''/'' # d3 @ CHR ''/'' # ch)
      = Some (Some (d2, Some d3), CHR ''/'' # ch)"
    using first_result_app_part(2) [OF g4 d(2)] by simp
  have n4: "first_result network_part
      (CHR ''/'' # d1 @ CHR ''/'' # d2 @ CHR ''/'' # d3 @ CHR ''/'' # ch)
      = Some (Some (d1, Some (d2, Some d3)), CHR ''/'' # ch)"
    using first_result_network_part(2) [OF a4 d(1)] by simp
  have "first_match NETID_REGEX
      (CHR ''/'' # CHR ''/'' # nm @ CHR ''/'' # d1 @ CHR ''/'' # d2 @ CHR ''/'' # d3 @ CHR ''/'' # ch)
      = Some (nm, Some d1, Some d2, Some d3, Some ch)"
    using first_match_NETID_REGEX(2) [OF nm _ n4 d(4)] by simp
  then show "parse (''//'' @ nm @ ''/'' @ d1 @ ''/'' @ d2 @ ''/'' @ d3 @ ''/'' @ ch)
      = CBusNetId (Str nm) (Str d1) (Str d2) (Str d3) (Str ch)"
    by (simp add: parse_def)
  have g5: "first_result group_part (CHR ''/'' # d2) = Some (Some d2, [])"
    using first_result_group_part(2) [OF d(2), of "[]"] by simp
  have a5: "first_result app_part (CHR ''/'' # CHR ''p'' # CHR ''/'' # d2)
      = Some (Some (''p'', Some d2), [])"
    by (rule first_result_app_part(3) [OF g5])
  have n5: "first_result network_part (CHR ''/'' # d1 @ CHR ''/'' # CHR ''p'' # CHR ''/'' # d2)
      = Some (Some (d1, Some (''p'', Some d2)), [])"
    using first_result_network_part(2) [OF a5 d(1)] by simp
  have "first_match NETID_REGEX
      (CHR ''/'' # CHR ''/'' # nm @ CHR ''/'' # d1 @ CHR ''/'' # CHR ''p'' # CHR ''/'' # d2)
      = Some (nm, Some d1, Some ''p'', Some d2, None)"
    using first_match_NETID_REGEX(1) [OF nm _ n5] by simp
  then show "parse (''//'' @ nm @ ''/'' @ d1 @ ''/p/'' @ d2)
      = CBusNetId (Str nm) (Str d1) (Str ''p'') (Str d2) Undefined"
    by (simp add: parse_def)
qed

section \<open>Round trip of the other identifiers\<close>

lemma CBusNetId_Inr_name:
  assumes "CBusNetId p n a g c = Inr x"
  shows "\<not> invalid_project_name (Str (project x))"
proof
  assume bad: "invalid_project_name (Str (project x))"
  have "\<exists>e. CBusNetId (Str (project x)) n a g c = Inl e"
    unfolding CBusNetId_def validatedProjectName_Str using bad by simp
  then show False
    using assms CBusNetId_Inr(1) [OF assms] by auto
qed

lemma reconstruct:
  assumes "\<not> invalid_project_name (Str nm)" and "\<not> out_of_range n a g c"
    and "\<not> missing_unit_address a g" and "\<not> invalid_combination n a g"
  shows "\<exists>y. CBusNetId (Str nm) n a g c = Inr y \<and> project y = nm \<and> network y = integerise n \<and>
           unitAddress y = (if a = Str ''p'' then integerise g else None) \<and>
           application y = (if a = Str ''p'' then None else integerise a) \<and>
           group y = (if a = Str ''p'' then None else integerise g)"
proof -
  have "failure_category (CBusNetId (Str nm) n a g c) = None"
    unfolding failure_category_after_name [OF assms(1)] using assms(2-4) by simp
  then obtain y where y: "CBusNetId (Str nm) n a g c = Inr y"
    by (cases "CBusNetId (Str nm) n a g c") auto
  show ?thesis
    using CBusNetId_Inr(1,3) [OF y] CBusNetId_Inr_fields(2-4) [OF y] y by auto
qed

lemma getHash_same_fields:
  assumes "project y = project x" "network y = network x" "unitAddress y = unitAddress x"
    "application y = application x" "group y = group x"
  shows "isEquals y x"
  using assms by (simp add: isEquals_def getHash_def isProjectId_def isUnitId_def)

lemma byte_argument:
  assumes "0 \<le> v" and "v \<le> 255"
  shows "integerise (Str (template (Some v))) = Some v"
    and "\<not> outside_byte (Str (template (Some v)))"
    and "Str (template (Some v)) \<noteq> Str ''p''"
    and "template (Some v) \<in> run is_digit 1 3"
proof -
  note t = template_byte [OF assms]
  show "integerise (Str (template (Some v))) = Some v" by (rule t(2))
  show "\<not> outside_byte (Str (template (Some v)))"
    using assms by (simp add: outside_byte_def t(2) del: integerise.simps(3) template.simps)
  show "template (Some v) \<in> run is_digit 1 3" by (rule t(1))
  then show "Str (template (Some v)) \<noteq> Str ''p''"
    by (auto simp: run_def is_digit_def simp del: template.simps)
qed

lemma absent_argument:
  "integerise Undefined = None" "\<not> outside_byte Undefined" "\<not> channel_outside Undefined"
  by (simp_all add: outside_byte_def channel_outside_def)

lemma channel_argument:
  assumes "1 \<le> v" and "v \<le> 7"
  shows "\<not> channel_outside (Str (template (Some v)))"
proof -
  have "integerise (Str (template (Some v))) = Some v"
    using assms by (intro template_byte(2)) simp_all
  then show ?thesis
    using assms by (simp add: channel_outside_def del: integerise.simps(3) template.simps)
qed

lemma round_trip_unless_unit_with_channel:
  assumes ok: "CBusNetId p n a g c = Inr x" and nuc: "\<not> (isUnitId x \<and> has_channel x)"
  shows "\<exists>y. parse (toString x) = Inr y \<and> isEquals y x"
proof -
  note k = constructed_kind [OF ok]
  note nm = CBusNetId_Inr_name [OF ok]
  have run: "project x \<in> run is_name_char 1 8"
    using CBusNetId_Inr(2) [OF ok] by (simp add: match_name_format_def run_def)
  note b = CBusNetId_Inr(4-8) [OF ok]
  note h = CBusNetId_Inr(9-12) [OF ok]
  note pc = parse_canonical [OF run]
  show ?thesis
  proof (cases "kind_of x")
    case Project
    then have f: "network x = None" "unitAddress x = None" "application x = None" "group x = None"
      by (auto simp: kind_of_def split: if_splits)
    have s: "toString x = ''//'' @ project x"
      using Project by (simp add: toString_def k)
    obtain y where y: "CBusNetId (Str (project x)) Undefined Undefined Undefined Undefined = Inr y"
      "project y = project x" "network y = None" "unitAddress y = None" "application y = None"
      "group y = None"
      using reconstruct [OF nm, of Undefined Undefined Undefined Undefined]
      by (auto simp: out_of_range_def missing_unit_address_def invalid_combination_def
          absent_argument)
    have "parse (toString x) = Inr y"
      unfolding s using pc(1) [of "''0''" "''0''" "''0''" "''0''"] y(1)
      by (simp add: run_def is_digit_def)
    moreover have "isEquals y x"
      using y f by (intro getHash_same_fields) simp_all
    ultimately show ?thesis by blast
  next
    case Network
    then obtain v1 where f: "network x = Some v1" "unitAddress x = None" "application x = None"
      "group x = None"
      by (auto simp: kind_of_def split: if_splits)
    note a1 = byte_argument [of v1]
    have v: "0 \<le> v1" "v1 \<le> 255" using b f by simp_all
    have s: "toString x = ''//'' @ project x @ ''/'' @ template (Some v1)"
      using Network f by (simp add: toString_def k del: template.simps)
    obtain y where y: "CBusNetId (Str (project x)) (Str (template (Some v1))) Undefined Undefined
        Undefined = Inr y"
      "project y = project x" "network y = Some v1" "unitAddress y = None" "application y = None"
      "group y = None"
      using reconstruct [OF nm, of "Str (template (Some v1))" Undefined Undefined Undefined]
        a1 [OF v]
      by (auto simp: out_of_range_def missing_unit_address_def invalid_combination_def
          absent_argument simp del: integerise.simps(3) template.simps)
    have "parse (toString x) = Inr y"
      unfolding s using pc(2) [OF a1(4) [OF v] a1(4) [OF v] a1(4) [OF v] a1(4) [OF v]] y(1)
      by (simp del: template.simps)
    moreover have "isEquals y x"
      using y f by (intro getHash_same_fields) simp_all
    ultimately show ?thesis by blast
  next
    case Application
    then obtain v1 v2 where f: "network x = Some v1" "unitAddress x = None"
      "application x = Some v2" "group x = None"
      using h by (auto simp: kind_of_def split: if_splits)
    have v: "0 \<le> v1" "v1 \<le> 255" "0 \<le> v2" "v2 \<le> 255" using b f by simp_all
    note a1 = byte_argument [OF v(1,2)]
    note a2 = byte_argument [OF v(3,4)]
    have s: "toString x = ''//'' @ project x @ ''/'' @ template (Some v1) @ ''/'' @ template (Some v2)"
      using Application f by (simp add: toString_def k del: template.simps)
    obtain y where y: "CBusNetId (Str (project x)) (Str (template (Some v1)))
        (Str (template (Some v2))) Undefined Undefined = Inr y"
      "project y = project x" "network y = Some v1" "unitAddress y = None"
      "application y = Some v2" "group y = None"
      using reconstruct [OF nm, of "Str (template (Some v1))" "Str (template (Some v2))" Undefined
          Undefined] a1 a2
      by (auto simp: out_of_range_def missing_unit_address_def invalid_combination_def
          absent_argument simp del: integerise.simps(3) template.simps)
    have "parse (toString x) = Inr y"
      unfolding s using pc(3) [OF a1(4) a2(4) a1(4) a1(4)] y(1)
      by (simp del: template.simps)
    moreover have "isEquals y x"
      using y f by (intro getHash_same_fields) simp_all
    ultimately show ?thesis by blast
  next
    case Group
    then obtain v1 v2 v3 where f: "network x = Some v1" "unitAddress x = None"
      "application x = Some v2" "group x = Some v3"
      using h by (auto simp: kind_of_def split: if_splits)
    have v: "0 \<le> v1" "v1 \<le> 255" "0 \<le> v2" "v2 \<le> 255" "0 \<le> v3" "v3 \<le> 255"
      using b f by simp_all
    note a1 = byte_argument [OF v(1,2)]
    note a2 = byte_argument [OF v(3,4)]
    note a3 = byte_argument [OF v(5,6)]
    show ?thesis
    proof (cases "has_channel x")
      case False
      have s: "toString x = ''//'' @ project x @ ''/'' @ template (Some v1) @ ''/''
          @ template (Some v2) @ ''/'' @ template (Some v3)"
        using Group False f by (simp add: toString_def k del: template.simps)
      obtain y where y: "CBusNetId (Str (project x)) (Str (template (Some v1)))
          (Str (template (Some v2))) (Str (template (Some v3))) Undefined = Inr y"
        "project y = project x" "network y = Some v1" "unitAddress y = None"
        "application y = Some v2" "group y = Some v3"
        using reconstruct [OF nm, of "Str (template (Some v1))" "Str (template (Some v2))"
            "Str (template (Some v3))" Undefined] a1 a2 a3
        by (auto simp: out_of_range_def missing_unit_address_def invalid_combination_def
            absent_argument simp del: integerise.simps(3) template.simps)
      have "parse (toString x) = Inr y"
        unfolding s using pc(4) [OF a1(4) a2(4) a3(4) a1(4)] y(1)
        by (simp del: template.simps)
      moreover have "isEquals y x"
        using y f by (intro getHash_same_fields) simp_all
      ultimately show ?thesis by blast
    next
      case True
      then obtain v4 where ch: "channel x = Some v4" "1 \<le> v4" "v4 \<le> 7"
        using b(2) by (auto simp: has_channel_def)
      have c4: "template (Some v4) \<in> run is_digit 1 3"
        using ch by (intro template_byte(1)) simp_all
      have s: "toString x = ''//'' @ project x @ ''/'' @ template (Some v1) @ ''/''
          @ template (Some v2) @ ''/'' @ template (Some v3) @ ''/'' @ template (Some v4)"
        using Group True f ch by (simp add: toString_def k del: template.simps)
      obtain y where y: "CBusNetId (Str (project x)) (Str (template (Some v1)))
          (Str (template (Some v2))) (Str (template (Some v3))) (Str (template (Some v4))) = Inr y"
        "project y = project x" "network y = Some v1" "unitAddress y = None"
        "application y = Some v2" "group y = Some v3"
        using reconstruct [OF nm, of "Str (template (Some v1))" "Str (template (Some v2))"
            "Str (template (Some v3))" "Str (template (Some v4))"] a1 a2 a3
          channel_argument [OF ch(2,3)]
        by (auto simp: out_of_range_def missing_unit_address_def invalid_combination_def
            absent_argument simp del: integerise.simps(3) template.simps)
      have "parse (toString x) = Inr y"
        unfolding s using pc(5) [OF a1(4) a2(4) a3(4) c4] y(1)
        by (simp del: template.simps)
      moreover have "isEquals y x"
        using y f by (intro getHash_same_fields) simp_all
      ultimately show ?thesis by blast
    qed
  next
    case Unit
    then obtain v1 v2 where f: "network x = Some v1" "unitAddress x = Some v2"
      "application x = None" "group x = None"
      using h by (auto simp: kind_of_def split: if_splits)
    have v: "0 \<le> v1" "v1 \<le> 255" "0 \<le> v2" "v2 \<le> 255" using b f by simp_all
    note a1 = byte_argument [OF v(1,2)]
    note a2 = byte_argument [OF v(3,4)]
    have nc: "\<not> has_channel x"
      using nuc Unit by (simp add: k)
    have s: "toString x = ''//'' @ project x @ ''/'' @ template (Some v1) @ ''/p/''
        @ template (Some v2)"
      using Unit f nc by (simp add: toString_def k del: template.simps)
    obtain y where y: "CBusNetId (Str (project x)) (Str (template (Some v1))) (Str ''p'')
        (Str (template (Some v2))) Undefined = Inr y"
      "project y = project x" "network y = Some v1" "unitAddress y = Some v2"
      "application y = None" "group y = None"
      using reconstruct [OF nm, of "Str (template (Some v1))" "Str ''p''"
          "Str (template (Some v2))" Undefined] a1 a2
      by (auto simp: out_of_range_def missing_unit_address_def invalid_combination_def
          absent_argument simp del: integerise.simps(3) template.simps)
    have "parse (toString x) = Inr y"
      unfolding s using pc(6) [OF a1(4) a2(4) a1(4) a1(4)] y(1)
      by (simp del: template.simps)
    moreover have "isEquals y x"
      using y f by (intro getHash_same_fields) simp_all
    ultimately show ?thesis by blast
  qed
qed

end
